theory Spec2Isabelle
  imports Main "HOL-Library.AList"
begin

section \<open>Data model\<close>

text \<open>
  A JavaScript \<^verbatim>\<open>Date\<close> with a valid time value is its number of milliseconds since the
  epoch. The application pins its time zone to Asia/Manila (UTC+8, no daylight saving), so
  \<^verbatim>\<open>d.setDate(d.getDate() + n)\<close> moves a date by \<open>n\<close> whole days of 24 hours and a local
  calendar day is the quotient of the shifted time value by the length of a day.
\<close>

type_synonym date = int

definition msPerDay :: int where
  "msPerDay = 86400000"

definition tzOffset :: int where
  "tzOffset = 28800000"

definition addDays :: "date \<Rightarrow> int \<Rightarrow> date" where
  "addDays d n = d + n * msPerDay"

text \<open>\<^verbatim>\<open>moment(d).format('YYYY-MM-DD')\<close>: the local calendar day, as a day number.\<close>

definition dayOf :: "date \<Rightarrow> int" where
  "dayOf d = (d + tzOffset) div msPerDay"

datatype task_status = Pending | Completed | Blocked

record computed_dates =
  cd_start :: "date option"
  cd_end :: "date option"

text \<open>
  One entry of \<^verbatim>\<open>taskSnapshotSchema\<close>. \<open>tid\<close> is the Mongoose \<^verbatim>\<open>_id\<close>, absent until the
  entry is part of a stored snapshot document; \<open>None\<close> in a date field is \<^verbatim>\<open>null\<close> or
  \<^verbatim>\<open>undefined\<close>.
\<close>

record task =
  tid :: "string option"
  order :: string
  name :: string
  responsible :: "string list"
  precedingTasks :: "string list"
  leadTime :: int
  actualCompletion :: "date option"
  remarks :: "string option"
  sourceTemplateActiveOnCreation :: bool
  status :: task_status
  computedDates :: computed_dates

section \<open>Date propagation: \<^verbatim>\<open>recalculateAllTaskDates\<close>\<close>

text \<open>
  \<^verbatim>\<open>new Map(tasks.map(t => [t.order, t]))\<close>: a later entry with the same order code
  replaces an earlier one. The map holds the task objects themselves, so a lookup sees the
  current state of the list.
\<close>

definition tasksMap :: "task list \<Rightarrow> string \<Rightarrow> task option" where
  "tasksMap ts = map_of (rev (map (\<lambda>t. (order t, t)) ts))"

text \<open>
  The \<^verbatim>\<open>for (const predOrder of task.precedingTasks)\<close> loop with its \<^verbatim>\<open>break\<close>: the
  result is \<open>(allPredecessorsComplete, latestPredecessorCompletionDate)\<close>.
\<close>

fun latestPredecessor ::
  "(string \<Rightarrow> task option) \<Rightarrow> string list \<Rightarrow> date option \<Rightarrow> bool \<times> date option" where
  "latestPredecessor m [] latest = (True, latest)"
| "latestPredecessor m (predOrder # rest) latest =
     (case m predOrder of
        None \<Rightarrow> (False, latest)
      | Some predecessor \<Rightarrow>
          (case actualCompletion predecessor of
             None \<Rightarrow> (False, latest)
           | Some predCompletionDate \<Rightarrow>
               latestPredecessor m rest
                 (case latest of
                    None \<Rightarrow> Some predCompletionDate
                  | Some l \<Rightarrow> if predCompletionDate > l then Some predCompletionDate else Some l)))"

text \<open>The body of \<^verbatim>\<open>tasks.forEach(task => ...)\<close> for one task: the task and whether it changed.\<close>

definition recalcTask :: "(string \<Rightarrow> task option) \<Rightarrow> date \<Rightarrow> task \<Rightarrow> task \<times> bool" where
  "recalcTask m seasonCreatedAt t =
     (if actualCompletion t \<noteq> None then (t, False)
      else
        (case (if precedingTasks t = [] then (True, Some seasonCreatedAt)
               else latestPredecessor m (precedingTasks t) None) of
           (True, Some newStartDate) \<Rightarrow>
             if cd_start (computedDates t) \<noteq> Some newStartDate
             then (t\<lparr>computedDates :=
                       \<lparr>cd_start = Some newStartDate,
                        cd_end = Some (addDays newStartDate (leadTime t))\<rparr>\<rparr>, True)
             else (t, False)
         | _ \<Rightarrow>
             if cd_start (computedDates t) \<noteq> None \<or> cd_end (computedDates t) \<noteq> None
             then (t\<lparr>computedDates := \<lparr>cd_start = None, cd_end = None\<rparr>\<rparr>, True)
             else (t, False)))"

text \<open>
  One pass of \<^verbatim>\<open>tasks.forEach\<close>: \<open>visited\<close> are the entries already handled in this pass,
  the third argument the entries still to visit; every lookup goes through the map of the
  whole list in its current state.
\<close>

fun forEachTask :: "date \<Rightarrow> task list \<Rightarrow> task list \<Rightarrow> bool \<Rightarrow> task list \<times> bool" where
  "forEachTask seasonCreatedAt visited [] changed = (visited, changed)"
| "forEachTask seasonCreatedAt visited (t # rest) changed =
     (case recalcTask (tasksMap (visited @ t # rest)) seasonCreatedAt t of
        (t', c) \<Rightarrow> forEachTask seasonCreatedAt (visited @ [t']) rest (changed \<or> c))"

definition pass :: "date \<Rightarrow> task list \<Rightarrow> task list \<times> bool" where
  "pass seasonCreatedAt ts = forEachTask seasonCreatedAt [] ts False"

text \<open>
  The \<^verbatim>\<open>while (changedInIteration && iterationCount < maxIterations)\<close> loop; the result
  is the task list with the final values of \<open>changedInIteration\<close> and \<open>iterationCount\<close>.
\<close>

function recalcLoop ::
  "date \<Rightarrow> nat \<Rightarrow> task list \<Rightarrow> bool \<Rightarrow> nat \<Rightarrow> task list \<times> bool \<times> nat" where
  "recalcLoop seasonCreatedAt maxIterations ts changedInIteration iterationCount =
     (if changedInIteration \<and> iterationCount < maxIterations
      then (case pass seasonCreatedAt ts of
              (ts', changed') \<Rightarrow>
                recalcLoop seasonCreatedAt maxIterations ts' changed' (Suc iterationCount))
      else (ts, changedInIteration, iterationCount))"
  by pat_completeness auto
termination
  by (relation "measure (\<lambda>(c, m, ts, ch, n). m - n)") auto

definition maxIterationsOf :: "task list \<Rightarrow> nat" where
  "maxIterationsOf ts = length ts + 5"

definition recalcRun :: "task list \<Rightarrow> date \<Rightarrow> task list \<times> bool \<times> nat" where
  "recalcRun ts seasonCreatedAt = recalcLoop seasonCreatedAt (maxIterationsOf ts) ts True 0"

definition recalculateAllTaskDates :: "task list \<Rightarrow> date \<Rightarrow> task list" where
  "recalculateAllTaskDates ts seasonCreatedAt = fst (recalcRun ts seasonCreatedAt)"

text \<open>The final \<^verbatim>\<open>if (iterationCount >= maxIterations) console.error(...)\<close>.\<close>

definition exceededMaxIterations :: "task list \<Rightarrow> date \<Rightarrow> bool" where
  "exceededMaxIterations ts seasonCreatedAt =
     (snd (snd (recalcRun ts seasonCreatedAt)) \<ge> maxIterationsOf ts)"

section \<open>Attention tracking: \<^verbatim>\<open>updateSeasonAttention\<close>\<close>

datatype season_status = Open | OnHold | Closed | Canceled

text \<open>The Season document; \<open>requireAttention = None\<close> is a stored \<^verbatim>\<open>null\<close>.\<close>

record season =
  seasonName :: string
  buyer :: string
  seasonStatus :: season_status
  requireAttention :: "string list option"
  createdAt :: date
  createdBy :: string

text \<open>\<^verbatim>\<open>Set.add\<close> followed by \<^verbatim>\<open>Array.from\<close>: first insertion order, no duplicates.\<close>

definition setAdd :: "string \<Rightarrow> string list \<Rightarrow> string list" where
  "setAdd d acc = (if d \<in> set acc then acc else acc @ [d])"

text \<open>
  \<^verbatim>\<open>predecessors.every(predOrder => { const predecessor = tasksMap.get(predOrder);
  return predecessor && predecessor.status === 'completed'; })\<close>
\<close>

definition statusPredecessorsComplete :: "(string \<Rightarrow> task option) \<Rightarrow> task \<Rightarrow> bool" where
  "statusPredecessorsComplete m t =
     list_all (\<lambda>predOrder. case m predOrder of None \<Rightarrow> False
                                | Some predecessor \<Rightarrow> status predecessor = Completed)
       (precedingTasks t)"

definition addResponsible :: "string list \<Rightarrow> task \<Rightarrow> string list" where
  "addResponsible acc t =
     foldl (\<lambda>acc deptName. if deptName \<noteq> [] then setAdd deptName acc else acc) acc (responsible t)"

definition currentRequireAttention :: "task list \<Rightarrow> string list" where
  "currentRequireAttention ts =
     foldl (\<lambda>acc t.
              if status t = Pending \<and> statusPredecessorsComplete (tasksMap ts) t
              then addResponsible acc t else acc) [] ts"

definition updateSeasonAttention :: "season \<Rightarrow> task list \<Rightarrow> season" where
  "updateSeasonAttention s ts = s\<lparr>requireAttention := Some (currentRequireAttention ts)\<rparr>"

section \<open>The store and its collaborators\<close>

record user =
  role :: string
  email :: string
  department :: string

text \<open>
  The interpolated \<^verbatim>\<open>details\<close> text of an activity entry, kept as the values it is
  built from (calendar days stand for the formatted dates).
\<close>

datatype details =
    RemarksUpdated string string string
  | CompletionUpdated string "int option" int
  | StatusUpdated season_status season_status
  | StatusAutoClosed season_status
  | SeasonNameChanged string
  | SeasonBuyerChanged string

record activity =
  logUser :: string
  logSeasonId :: string
  logAction :: string
  logDetails :: details
  logTaskId :: "string option"
  logTaskName :: "string option"

record emailLog =
  mailSeason :: string
  recipient :: string
  mailTask :: string
  sent :: bool

text \<open>
  The collections the code reads and writes. Snapshots are keyed by their season (the
  schema's unique index); \<open>emailSetting\<close> is the value of the
  \<^verbatim>\<open>emailNotificationsEnabled\<close> setting; \<open>transportOk\<close> says for which recipients the mail
  transport succeeds.
\<close>

record world =
  users :: "(string \<times> user) list"
  departments :: "(string \<times> string) list"
  buyers :: "(string \<times> string) list"
  seasons :: "(string \<times> season) list"
  snapshots :: "(string \<times> task list) list"
  activityLogs :: "activity list"
  emailSetting :: "bool option"
  transportOk :: "string \<Rightarrow> bool"
  emailLogs :: "emailLog list"

text \<open>
  \<^verbatim>\<open>season.save()\<close> validates the document against \<^verbatim>\<open>SeasonSchema\<close> first: every element
  of \<open>requireAttention\<close> must be one of the schema's department codes (the template schema
  also allows \<^verbatim>\<open>IT\<close>, the season schema does not). A document that fails is not written and
  the call throws a Mongoose \<^verbatim>\<open>ValidationError\<close>; the result \<open>None\<close> is that exception. The
  status is one of the enumerated values by its type. Saving a snapshot writes entries that
  were valid when loaded and changes no validated field of them, so it is taken to succeed.
\<close>

definition requireAttentionEnum :: "string list" where
  "requireAttentionEnum = [''PD'', ''P&S'', ''AM'', ''QA'', ''Logistics'', ''Production'']"

definition seasonValid :: "season \<Rightarrow> bool" where
  "seasonValid s =
     (case requireAttention s of
        None \<Rightarrow> True
      | Some ra \<Rightarrow> list_all (\<lambda>d. d \<in> set requireAttentionEnum) ra)"

definition saveSeason :: "string \<Rightarrow> season \<Rightarrow> world \<Rightarrow> world option" where
  "saveSeason sid s w =
     (if seasonValid s then Some (w\<lparr>seasons := AList.update sid s (seasons w)\<rparr>) else None)"

text \<open>
  A schema string with \<^verbatim>\<open>trim: true\<close> is stored without its leading and trailing
  white space (here the ASCII white space characters).
\<close>

definition isSpaceChar :: "char \<Rightarrow> bool" where
  "isSpaceChar c = ((of_char c :: nat) = 32 \<or> (9 \<le> (of_char c :: nat) \<and> (of_char c :: nat) \<le> 13))"

definition trim :: "string \<Rightarrow> string" where
  "trim s = rev (dropWhile isSpaceChar (rev (dropWhile isSpaceChar s)))"

text \<open>
  \<^verbatim>\<open>logActivity\<close>: without a user id nothing is written; an action outside the enumeration
  of \<^verbatim>\<open>activityLogSchema\<close> fails validation when the entry is saved, which
  \<^verbatim>\<open>logActivity\<close> catches, so nothing is written either. It never throws.
\<close>

definition activityActions :: "string list" where
  "activityActions = [''CREATE_TASK'', ''UPDATE_TASK'', ''DELETE_TASK'', ''UPDATE_REMARKS'',
                      ''UPDATE_COMPLETION_DATE'', ''UPLOAD_ATTACHMENT'', ''DELETE_ATTACHMENT'',
                      ''UPDATE_STATUS'']"

definition formattedTaskName :: "task \<Rightarrow> string option" where
  "formattedTaskName t =
     (if order t \<noteq> [] \<and> name t \<noteq> [] then Some (order t @ '' - '' @ name t) else Some (name t))"

definition logActivity :: "activity \<Rightarrow> world \<Rightarrow> world" where
  "logActivity a w =
     (if logUser a = [] then w
      else if logAction a \<notin> set activityActions then w
      else w\<lparr>activityLogs := activityLogs w @ [a]\<rparr>)"

definition taskActivity :: "string \<Rightarrow> string \<Rightarrow> task \<Rightarrow> string \<Rightarrow> details \<Rightarrow> activity" where
  "taskActivity userId seasonId t action d =
     \<lparr>logUser = userId, logSeasonId = seasonId, logAction = action, logDetails = d,
      logTaskId = tid t, logTaskName = formattedTaskName t\<rparr>"

definition seasonActivity :: "string \<Rightarrow> string \<Rightarrow> string \<Rightarrow> details \<Rightarrow> activity" where
  "seasonActivity userId seasonId action d =
     \<lparr>logUser = userId, logSeasonId = seasonId, logAction = action, logDetails = d,
      logTaskId = None, logTaskName = None\<rparr>"

text \<open>
  \<^verbatim>\<open>sendEmail\<close> records the outcome and rethrows a transport failure; the result
  \<open>False\<close> is that exception.
\<close>

fun sendEmails :: "string \<Rightarrow> string \<Rightarrow> string list \<Rightarrow> world \<Rightarrow> bool \<times> world" where
  "sendEmails seasonId taskName [] w = (True, w)"
| "sendEmails seasonId taskName (to # rest) w =
     (if transportOk w to
      then sendEmails seasonId taskName rest
             (w\<lparr>emailLogs := emailLogs w @
                  [\<lparr>mailSeason = seasonId, recipient = to, mailTask = taskName, sent = True\<rparr>]\<rparr>)
      else (False,
            w\<lparr>emailLogs := emailLogs w @
                 [\<lparr>mailSeason = seasonId, recipient = to, mailTask = taskName, sent = False\<rparr>]\<rparr>))"

definition departmentIds :: "world \<Rightarrow> string list \<Rightarrow> string list" where
  "departmentIds w names = map fst (filter (\<lambda>(i, n). n \<in> set names) (departments w))"

definition usersToNotify :: "world \<Rightarrow> string list \<Rightarrow> string list" where
  "usersToNotify w deptIds =
     map (\<lambda>(i, u). email u) (filter (\<lambda>(i, u). department u \<in> set deptIds) (users w))"

text \<open>
  The notification loop inside \<^verbatim>\<open>try { ... } catch\<close>: the first failed delivery ends it.
\<close>

fun notifyTasks :: "string \<Rightarrow> task list \<Rightarrow> world \<Rightarrow> world" where
  "notifyTasks seasonId [] w = w"
| "notifyTasks seasonId (subsequentTask # rest) w =
     (if departmentIds w (responsible subsequentTask) \<noteq> []
      then (case sendEmails seasonId (name subsequentTask)
                   (usersToNotify w (departmentIds w (responsible subsequentTask))) w of
              (True, w') \<Rightarrow> notifyTasks seasonId rest w'
            | (False, w') \<Rightarrow> w')
      else notifyTasks seasonId rest w)"

text \<open>
  \<^verbatim>\<open>newlyActionableTasks\<close>: here a predecessor is looked up with
  \<^verbatim>\<open>snapshot.tasks.find\<close>, the first entry with that order code.
\<close>

definition newlyActionableTasks :: "task list \<Rightarrow> task \<Rightarrow> task list" where
  "newlyActionableTasks ts t =
     (if status t = Completed
      then filter (\<lambda>p. status p = Pending \<and> order t \<in> set (precedingTasks p) \<and>
                      list_all (\<lambda>predOrder.
                                  case find (\<lambda>q. order q = predOrder) ts of
                                    None \<Rightarrow> False
                                  | Some predecessor \<Rightarrow> status predecessor = Completed)
                        (precedingTasks p)) ts
      else [])"

definition notifyNewlyActionable :: "string \<Rightarrow> task list \<Rightarrow> task \<Rightarrow> world \<Rightarrow> world" where
  "notifyNewlyActionable seasonId ts t w =
     (if newlyActionableTasks ts t \<noteq> []
      then (if emailSetting w = Some True
            then notifyTasks seasonId (newlyActionableTasks ts t) w else w)
      else w)"

section \<open>The task update transaction: \<^verbatim>\<open>updateTaskAndProgressSeason\<close>\<close>

text \<open>
  A thrown \<^verbatim>\<open>Error\<close> carrying \<^verbatim>\<open>status\<close> and message, the \<^verbatim>\<open>TypeError\<close> of reading a
  property of \<^verbatim>\<open>undefined\<close>, or the validation error thrown by \<^verbatim>\<open>season.save()\<close>.
\<close>

datatype error = HttpError nat string | TypeError | StoreValidationError

record snapshot =
  seasonId :: string
  tasks :: "task list"

text \<open>
  The request's update data after \<^verbatim>\<open>new Date(actualCompletion)\<close>: \<open>None\<close> is
  \<^verbatim>\<open>undefined\<close>, \<open>Some None\<close> a value that gives an invalid date.
\<close>

record updateData =
  ud_actualCompletion :: "date option option"
  ud_remarks :: "string option"

record result =
  hasChanged :: bool
  updatedTasks :: "task list"
  message :: "string option"

definition toLowerChar :: "char \<Rightarrow> char" where
  "toLowerChar c =
     (if 65 \<le> (of_char c :: nat) \<and> (of_char c :: nat) \<le> 90
      then (case c of Char b0 b1 b2 b3 b4 b5 b6 b7 \<Rightarrow> Char b0 b1 b2 b3 b4 True b6 b7)
      else c)"

definition toLowerCase :: "string \<Rightarrow> string" where
  "toLowerCase s = map toLowerChar s"

definition isAdminOrPlanner :: "user \<Rightarrow> bool" where
  "isAdminOrPlanner u = (toLowerCase (role u) = ''admin'' \<or> toLowerCase (role u) = ''planner'')"

text \<open>\<^verbatim>\<open>snapshot.tasks.find(t => String(t._id) === taskId)\<close>, as the position found.\<close>

fun findIndex :: "('a \<Rightarrow> bool) \<Rightarrow> 'a list \<Rightarrow> nat option" where
  "findIndex P [] = None"
| "findIndex P (x # xs) = (if P x then Some 0 else map_option Suc (findIndex P xs))"

definition applyRemarks ::
  "string \<Rightarrow> string \<Rightarrow> string option \<Rightarrow> nat \<Rightarrow> task list \<Rightarrow> world \<Rightarrow> task list \<times> bool \<times> world" where
  "applyRemarks userId sid r i ts w =
     (case r of
        None \<Rightarrow> (ts, False, w)
      | Some newRemarks \<Rightarrow>
          if remarks (ts ! i) \<noteq> Some newRemarks
          then (let oldRemarks = (case remarks (ts ! i) of None \<Rightarrow> ''none''
                                  | Some old \<Rightarrow> if old = [] then ''none'' else old);
                    t' = (ts ! i)\<lparr>remarks := Some (trim newRemarks)\<rparr>
                in (ts[i := t'], True,
                    logActivity (taskActivity userId sid t' ''UPDATE_REMARKS''
                                   (RemarksUpdated (name t') oldRemarks newRemarks)) w))
          else (ts, False, w))"

text \<open>
  The prerequisite loop. Its error message reads \<^verbatim>\<open>predecessor.name\<close>, so a preceding
  code with no entry raises a \<^verbatim>\<open>TypeError\<close> instead of the error being built.
\<close>

definition notDoneMessage :: "task \<Rightarrow> string" where
  "notDoneMessage predecessor =
     ''Cannot complete task. Preceding task '' @ [CHR 0x27] @ name predecessor @ [CHR 0x27]
       @ '' ('' @ order predecessor @ '') is not done.''"

fun checkPredecessors :: "(string \<Rightarrow> task option) \<Rightarrow> string list \<Rightarrow> error option" where
  "checkPredecessors m [] = None"
| "checkPredecessors m (predOrder # rest) =
     (case m predOrder of
        None \<Rightarrow> Some TypeError
      | Some predecessor \<Rightarrow>
          if status predecessor \<noteq> Completed
          then Some (HttpError 400 (notDoneMessage predecessor))
          else checkPredecessors m rest)"

definition applyCompletion ::
  "string \<Rightarrow> string \<Rightarrow> bool \<Rightarrow> date option option \<Rightarrow> nat \<Rightarrow> task list \<Rightarrow> world
   \<Rightarrow> error + task list \<times> bool \<times> world" where
  "applyCompletion userId sid elevated ac i ts w =
     (case ac of
        None \<Rightarrow> Inr (ts, False, w)
      | Some None \<Rightarrow> Inl (HttpError 400 ''Invalid actualCompletion date format'')
      | Some (Some newActualCompletion) \<Rightarrow>
          (let oldCompletionDateStr = map_option dayOf (actualCompletion (ts ! i));
               newCompletionDateStr = dayOf newActualCompletion
           in if Some newCompletionDateStr \<noteq> oldCompletionDateStr
              then (if status (ts ! i) = Completed \<and> \<not> elevated
                    then Inl (HttpError 403
                                ''This task is already completed and cannot be changed.'')
                    else (case checkPredecessors (tasksMap ts) (precedingTasks (ts ! i)) of
                            Some e \<Rightarrow> Inl e
                          | None \<Rightarrow>
                              (let t' = (ts ! i)\<lparr>actualCompletion := Some newActualCompletion,
                                                 status := Completed\<rparr>
                               in Inr (ts[i := t'], True,
                                       logActivity
                                         (taskActivity userId sid t' ''UPDATE_COMPLETION_DATE''
                                            (CompletionUpdated (name t') oldCompletionDateStr
                                               newCompletionDateStr)) w))))
              else Inr (ts, False, w)))"

text \<open>Everything after \<^verbatim>\<open>if (!hasChanged) return ...\<close>.\<close>

definition progressSeason ::
  "string \<Rightarrow> string \<Rightarrow> nat \<Rightarrow> task list \<Rightarrow> world \<Rightarrow> (error + result) \<times> world" where
  "progressSeason userId sid i ts w =
     (case map_of (seasons w) sid of
        None \<Rightarrow> (Inl (HttpError 404 ''Associated season not found''), w)
      | Some s \<Rightarrow>
          (let ts1 = recalculateAllTaskDates ts (createdAt s);
               w1 = notifyNewlyActionable sid ts1 (ts1 ! i) w;
               s1 = updateSeasonAttention s ts1;
               res = \<lparr>hasChanged = True, updatedTasks = ts1, message = None\<rparr>
           in (case saveSeason sid s1 w1 of
                 None \<Rightarrow> (Inl StoreValidationError, w1)
               | Some w2 \<Rightarrow>
                   (let w3 = w2\<lparr>snapshots := AList.update sid ts1 (snapshots w2)\<rparr>
                    in if list_all (\<lambda>t. status t = Completed) ts1 \<and> seasonStatus s1 \<noteq> Closed
                       then (let s2 = s1\<lparr>seasonStatus := Closed, requireAttention := Some []\<rparr>
                             in (case saveSeason sid s2 w3 of
                                   None \<Rightarrow> (Inl StoreValidationError, w3)
                                 | Some w4 \<Rightarrow>
                                     (Inr res,
                                      logActivity
                                        (seasonActivity userId sid ''UPDATE_STATUS''
                                           (StatusAutoClosed (seasonStatus s1))) w4)))
                       else (Inr res, w3)))))"

definition updateTaskAndProgressSeason ::
  "world \<Rightarrow> string \<Rightarrow> snapshot \<Rightarrow> string \<Rightarrow> updateData \<Rightarrow> (error + result) \<times> world" where
  "updateTaskAndProgressSeason w userId snap taskId upd =
     (case map_of (users w) userId of
        None \<Rightarrow> (Inl (HttpError 404 ''User not found.''), w)
      | Some u \<Rightarrow>
          (case findIndex (\<lambda>t. tid t = Some taskId) (tasks snap) of
             None \<Rightarrow> (Inl (HttpError 404 ''Task not found in snapshot''), w)
           | Some i \<Rightarrow>
               (case applyRemarks userId (seasonId snap) (ud_remarks upd) i (tasks snap) w of
                  (ts1, changed1, w1) \<Rightarrow>
                    (case applyCompletion userId (seasonId snap) (isAdminOrPlanner u)
                            (ud_actualCompletion upd) i ts1 w1 of
                       Inl e \<Rightarrow> (Inl e, w1)
                     | Inr (ts2, changed2, w2) \<Rightarrow>
                         if \<not> (changed1 \<or> changed2)
                         then (Inr \<lparr>hasChanged = False, updatedTasks = ts2,
                                    message = Some ''No changes detected in task.''\<rparr>, w2)
                         else progressSeason userId (seasonId snap) i ts2 w2))))"

section \<open>Season status changes\<close>

datatype response = Failure nat string | Success season

definition parseStatus :: "string \<Rightarrow> season_status option" where
  "parseStatus s =
     (if s = ''Open'' then Some Open
      else if s = ''On-Hold'' then Some OnHold
      else if s = ''Closed'' then Some Closed
      else if s = ''Canceled'' then Some Canceled
      else None)"

text \<open>
  \<^verbatim>\<open>updateSeasonStatus\<close>, the handler of \<^verbatim>\<open>PUT /api/seasons/:id/status\<close>; its
  \<^verbatim>\<open>catch\<close> turns a failed save into the response 500.
\<close>

definition updateSeasonStatus :: "world \<Rightarrow> string \<Rightarrow> string \<Rightarrow> string \<Rightarrow> response \<times> world" where
  "updateSeasonStatus w sid newStatus userId =
     (case parseStatus newStatus of
        None \<Rightarrow> (Failure 400 (''Invalid status: '' @ newStatus), w)
      | Some ns \<Rightarrow>
          (case map_of (seasons w) sid of
             None \<Rightarrow> (Failure 404 ''Season not found'', w)
           | Some s \<Rightarrow>
               if seasonStatus s = ns then (Success s, w)
               else (let s1 = s\<lparr>seasonStatus := ns\<rparr>;
                         s2 = (if ns = Open
                               then (case map_of (snapshots w) sid of
                                       Some ts \<Rightarrow> updateSeasonAttention s1 ts
                                     | None \<Rightarrow> s1)
                               else s1\<lparr>requireAttention := Some []\<rparr>)
                     in (case saveSeason sid s2 w of
                           None \<Rightarrow> (Failure 500 ''Server error while updating status.'', w)
                         | Some w1 \<Rightarrow>
                             (Success s2,
                              logActivity (seasonActivity userId sid ''UPDATE_STATUS''
                                             (StatusUpdated (seasonStatus s) ns)) w1)))))"

text \<open>
  The handler of \<^verbatim>\<open>PUT /api/seasons/:id\<close>. A body field is absent, \<^verbatim>\<open>null\<close> (or the
  empty string), or a value; a status or a department code outside the schema's
  enumerations fails validation when the season is saved, which the handler's
  \<^verbatim>\<open>catch\<close> answers with 400.
\<close>

datatype 'a field = Absent | Null | Value 'a

record seasonBody =
  b_name :: "string option"
  b_buyer :: "string option"
  b_status :: "string option"
  b_requireAttention :: "string list field"

definition putSeason :: "world \<Rightarrow> string \<Rightarrow> string \<Rightarrow> seasonBody \<Rightarrow> response \<times> world" where
  "putSeason w sid reqUserId body =
     (case map_of (seasons w) sid of
        None \<Rightarrow> (Failure 404 ''Season not found'', w)
      | Some s \<Rightarrow>
          (let nameChange = (case b_name body of
                               Some n \<Rightarrow> n \<noteq> [] \<and> n \<noteq> seasonName s | None \<Rightarrow> False);
               newName = (case b_name body of Some n \<Rightarrow> n | None \<Rightarrow> [])
           in if nameChange \<and>
                 list_ex (\<lambda>(i, other). seasonName other = newName \<and> i \<noteq> sid) (seasons w)
              then (Failure 400 (''Season with name '' @ [CHR 0x27] @ newName @ [CHR 0x27]
                                   @ '' already exists.''), w)
              else
                (let s1 = (if nameChange then s\<lparr>seasonName := trim newName\<rparr> else s);
                     w1 = (if nameChange
                           then logActivity (seasonActivity reqUserId sid ''UPDATE_SEASON_NAME''
                                               (SeasonNameChanged newName)) w
                           else w);
                     buyerChange = (case b_buyer body of
                                      Some b \<Rightarrow> b \<noteq> [] \<and> b \<noteq> buyer s1 | None \<Rightarrow> False);
                     newBuyer = (case b_buyer body of Some b \<Rightarrow> b | None \<Rightarrow> [])
                 in if buyerChange \<and> map_of (buyers w1) newBuyer = None
                    then (Failure 400 ''Invalid Buyer ID provided.'', w1)
                    else
                      (let s2 = (if buyerChange then s1\<lparr>buyer := newBuyer\<rparr> else s1);
                           w2 = (if buyerChange
                                 then logActivity
                                        (seasonActivity reqUserId sid ''UPDATE_SEASON_BUYER''
                                           (SeasonBuyerChanged
                                              (case map_of (buyers w1) newBuyer of
                                                 Some n \<Rightarrow> n | None \<Rightarrow> []))) w1
                                 else w1);
                           statusGiven = (case b_status body of
                                            Some st \<Rightarrow> st \<noteq> [] | None \<Rightarrow> False);
                           newStatus = (case b_status body of
                                          Some st \<Rightarrow> parseStatus st | None \<Rightarrow> None)
                       in if statusGiven \<and> newStatus = None
                          then (Failure 400 ''Validation failed'', w2)
                          else
                            (let s3 = (case newStatus of
                                         Some ns \<Rightarrow> if statusGiven then s2\<lparr>seasonStatus := ns\<rparr>
                                                    else s2
                                       | None \<Rightarrow> s2);
                                 s4 = (case b_requireAttention body of
                                         Absent \<Rightarrow> s3
                                       | Null \<Rightarrow> s3\<lparr>requireAttention := None\<rparr>
                                       | Value ra \<Rightarrow> s3\<lparr>requireAttention := Some ra\<rparr>)
                             in (case saveSeason sid s4 w2 of
                                   None \<Rightarrow> (Failure 400 ''Validation failed'', w2)
                                 | Some w3 \<Rightarrow> (Success s4, w3)))))))"

section \<open>Snapshot creation\<close>

text \<open>The TaskTemplate document; an array or number field may be missing in old data.\<close>

record taskTemplate =
  tt_order :: string
  tt_name :: string
  defaultResponsible :: "string list option"
  defaultPrecedingTasks :: "string list option"
  defaultLeadTime :: "int option"
  isActive :: bool

text \<open>
  One element of \<^verbatim>\<open>taskTemplates.map(tt => ({ ... }))\<close>; \<^verbatim>\<open>tt.defaultLeadTime || 1\<close>
  replaces a missing value and the value \<open>0\<close>.
\<close>

definition snapshotTask :: "taskTemplate \<Rightarrow> task" where
  "snapshotTask tt =
     \<lparr>tid = None,
      order = tt_order tt,
      name = tt_name tt,
      responsible = (case defaultResponsible tt of Some r \<Rightarrow> r | None \<Rightarrow> []),
      precedingTasks = (case defaultPrecedingTasks tt of Some p \<Rightarrow> p | None \<Rightarrow> []),
      leadTime = (case defaultLeadTime tt of
                    Some l \<Rightarrow> if l = 0 then 1 else l
                  | None \<Rightarrow> 1),
      actualCompletion = None,
      remarks = None,
      sourceTemplateActiveOnCreation = isActive tt,
      status = (if isActive tt then Pending else Completed),
      computedDates = \<lparr>cd_start = None, cd_end = None\<rparr>\<rparr>"

definition snapshotTasks :: "taskTemplate list \<Rightarrow> task list" where
  "snapshotTasks taskTemplates = map snapshotTask taskTemplates"

text \<open>
  The two calls that follow in \<^verbatim>\<open>POST /api/seasons\<close>: seed the dates, then the season's
  attention set.
\<close>

definition seedSnapshot :: "taskTemplate list \<Rightarrow> season \<Rightarrow> season \<times> task list" where
  "seedSnapshot taskTemplates s =
     (let ts = recalculateAllTaskDates (snapshotTasks taskTemplates) (createdAt s)
      in (updateSeasonAttention s ts, ts))"

section \<open>Template order validation\<close>

text \<open>
  JavaScript's \<^verbatim>\<open><\<close> on strings compares code units from the left; a proper prefix is
  smaller. Order codes match \<^verbatim>\<open>/^[A-Z]+$/\<close>, one byte per code unit.
\<close>

fun jsStringLess :: "string \<Rightarrow> string \<Rightarrow> bool" where
  "jsStringLess [] [] = False"
| "jsStringLess [] (y # ys) = True"
| "jsStringLess (x # xs) [] = False"
| "jsStringLess (x # xs) (y # ys) =
     ((of_char x :: nat) < of_char y \<or> (x = y \<and> jsStringLess xs ys))"

record orderValidation =
  isValid :: bool
  invalidTasks :: "string list"

definition validatePrecedingOrderAlphabetical :: "string \<Rightarrow> string list option \<Rightarrow> orderValidation" where
  "validatePrecedingOrderAlphabetical currentOrder precedingTasksArray =
     (case precedingTasksArray of
        None \<Rightarrow> \<lparr>isValid = True, invalidTasks = []\<rparr>
      | Some pts \<Rightarrow>
          if pts = [] then \<lparr>isValid = True, invalidTasks = []\<rparr>
          else \<lparr>isValid = (filter (\<lambda>ptOrder. \<not> jsStringLess ptOrder currentOrder) pts = []),
                invalidTasks = filter (\<lambda>ptOrder. \<not> jsStringLess ptOrder currentOrder) pts\<rparr>)"

text \<open>
  The ordering on order codes in the words of the specification: a shorter code comes
  first, codes of equal length compare from the left.
\<close>

definition specOrderLess :: "string \<Rightarrow> string \<Rightarrow> bool" where
  "specOrderLess a b = (length a < length b \<or> (length a = length b \<and> jsStringLess a b))"

section \<open>Notions used to state the properties\<close>

text \<open>Two entries that differ at most in their computed dates.\<close>

definition sameButDates :: "task \<Rightarrow> task \<Rightarrow> bool" where
  "sameButDates t t' = (t' = t\<lparr>computedDates := computedDates t'\<rparr>)"

text \<open>
  The "ready" timestamp the loop body works out for an entry: the date that becomes its
  start, or \<open>None\<close> when a predecessor is missing or has no \<open>actualCompletion\<close>.
\<close>

definition readyDate :: "(string \<Rightarrow> task option) \<Rightarrow> date \<Rightarrow> task \<Rightarrow> date option" where
  "readyDate m c t =
     (case (if precedingTasks t = [] then (True, Some c)
            else latestPredecessor m (precedingTasks t) None) of
        (True, Some d) \<Rightarrow> Some d
      | _ \<Rightarrow> None)"

text \<open>What one visit makes of an entry, with lookups in the list \<open>ts\<close>.\<close>

definition settle :: "task list \<Rightarrow> date \<Rightarrow> task \<Rightarrow> task" where
  "settle ts c t = fst (recalcTask (tasksMap ts) c t)"

text \<open>
  The date engine's test of a predecessor: the preceding code has an entry and that entry
  has an \<open>actualCompletion\<close>; \<open>predecessorCompletions\<close> lists those completion dates.
\<close>

definition isDone :: "(string \<Rightarrow> task option) \<Rightarrow> string \<Rightarrow> bool" where
  "isDone m p = (case m p of None \<Rightarrow> False | Some q \<Rightarrow> actualCompletion q \<noteq> None)"

definition completionsOf :: "(string \<Rightarrow> task option) \<Rightarrow> string list \<Rightarrow> date list" where
  "completionsOf m ps =
     concat (map (\<lambda>p. case m p of None \<Rightarrow> []
                      | Some q \<Rightarrow> (case actualCompletion q of None \<Rightarrow> [] | Some d \<Rightarrow> [d])) ps)"

definition predecessorsDone :: "task list \<Rightarrow> task \<Rightarrow> bool" where
  "predecessorsDone ts t = list_all (isDone (tasksMap ts)) (precedingTasks t)"

definition predecessorCompletions :: "task list \<Rightarrow> task \<Rightarrow> date list" where
  "predecessorCompletions ts t = completionsOf (tasksMap ts) (precedingTasks t)"

text \<open>
  The entries the program holds. Computed dates are written together, so they are
  \<^verbatim>\<open>null\<close>/\<^verbatim>\<open>null\<close> or the end is the start plus the lead time; \<open>actualCompletion\<close> is only
  ever set together with the status \<open>Completed\<close>. Snapshot creation builds such entries;
  propagation and the update transaction keep them so (shown below).
\<close>

definition datesConsistent :: "task \<Rightarrow> bool" where
  "datesConsistent t =
     (case cd_start (computedDates t) of
        None \<Rightarrow> cd_end (computedDates t) = None
      | Some d \<Rightarrow> cd_end (computedDates t) = Some (addDays d (leadTime t)))"

definition entryWf :: "task \<Rightarrow> bool" where
  "entryWf t = ((status t \<noteq> Completed \<longrightarrow> actualCompletion t = None) \<and> datesConsistent t)"

text \<open>Two states of the store that differ at most in the activity log.\<close>

definition sameButLogs :: "world \<Rightarrow> world \<Rightarrow> bool" where
  "sameButLogs w w' = (w' = w\<lparr>activityLogs := activityLogs w'\<rparr>)"

text \<open>Two entries that differ at most in their remarks.\<close>

definition sameButRemarks :: "task \<Rightarrow> task \<Rightarrow> bool" where
  "sameButRemarks t t' = (t' = t\<lparr>remarks := remarks t'\<rparr>)"

text \<open>The two assignments that complete an entry.\<close>

definition completeTask :: "date \<Rightarrow> task \<Rightarrow> task" where
  "completeTask d t = t\<lparr>actualCompletion := Some d, status := Completed\<rparr>"

section \<open>A small season used for evaluation\<close>

text \<open>
  Two entries: \<open>A\<close> without predecessors and a lead time of 2 days, \<open>B\<close> after \<open>A\<close> with a
  lead time of 3 days; the season is created at time 0 and \<open>A\<close> is completed one day later.
\<close>

definition taskA :: task where
  "taskA = \<lparr>tid = Some ''ta'', order = ''A'', name = ''Sampling'', responsible = [''PD''],
            precedingTasks = [], leadTime = 2, actualCompletion = None, remarks = None,
            sourceTemplateActiveOnCreation = True, status = Pending,
            computedDates = \<lparr>cd_start = Some 0, cd_end = Some 172800000\<rparr>\<rparr>"

definition taskADone :: task where
  "taskADone = taskA\<lparr>actualCompletion := Some 86400000, status := Completed\<rparr>"

definition taskB :: task where
  "taskB = \<lparr>tid = Some ''tb'', order = ''B'', name = ''Costing'', responsible = [''AM''],
            precedingTasks = [''A''], leadTime = 3, actualCompletion = None, remarks = None,
            sourceTemplateActiveOnCreation = True, status = Pending,
            computedDates = \<lparr>cd_start = None, cd_end = None\<rparr>\<rparr>"

text \<open>A template that is inactive when the season is created, and the season's store.\<close>

definition inactiveTemplate :: taskTemplate where
  "inactiveTemplate = \<lparr>tt_order = ''A'', tt_name = ''Sampling'', defaultResponsible = Some [''PD''],
      defaultPrecedingTasks = Some [], defaultLeadTime = Some 2, isActive = False\<rparr>"

definition season0 :: season where
  "season0 = \<lparr>seasonName = ''SS24'', buyer = ''b1'', seasonStatus = Open,
              requireAttention = Some [''AM''], createdAt = 0, createdBy = ''u2''\<rparr>"

definition world0 :: world where
  "world0 = \<lparr>users = [(''u1'', \<lparr>role = ''User'', email = ''u1@peba'', department = ''d1''\<rparr>),
                       (''u2'', \<lparr>role = ''Planner'', email = ''u2@peba'', department = ''d2''\<rparr>)],
             departments = [(''d1'', ''AM''), (''d2'', ''PD'')],
             buyers = [(''b1'', ''Buyer One'')],
             seasons = [(''s1'', season0)],
             snapshots = [(''s1'', [taskA, taskB])],
             activityLogs = [],
             emailSetting = Some True,
             transportOk = (\<lambda>to. True),
             emailLogs = []\<rparr>"

definition snap0 :: snapshot where
  "snap0 = \<lparr>seasonId = ''s1'', tasks = [taskA, taskB]\<rparr>"

text \<open>
  The same season after \<open>A\<close> was completed and the dates of \<open>B\<close> were computed, and
  the two requests used below: completing \<open>B\<close>, with and without new remarks.
\<close>

definition taskBReady :: task where
  "taskBReady = taskB\<lparr>computedDates := \<lparr>cd_start = Some 86400000, cd_end = Some 345600000\<rparr>\<rparr>"

definition taskBDone :: task where
  "taskBDone = taskBReady\<lparr>actualCompletion := Some 172800000, status := Completed\<rparr>"

definition snap1 :: snapshot where
  "snap1 = \<lparr>seasonId = ''s1'', tasks = [taskADone, taskBReady]\<rparr>"

definition world1 :: world where
  "world1 = world0\<lparr>snapshots := [(''s1'', [taskADone, taskBReady])]\<rparr>"

definition completeB :: updateData where
  "completeB = \<lparr>ud_actualCompletion = Some (Some 172800000), ud_remarks = None\<rparr>"

definition remarkAndCompleteB :: updateData where
  "remarkAndCompleteB = \<lparr>ud_actualCompletion = Some (Some 172800000), ud_remarks = Some ''done''\<rparr>"

text \<open>
  A snapshot in which \<open>B\<close> names the code \<open>Z\<close>, which has no entry, ahead of \<open>A\<close> (what
  renaming a template's order leaves behind in the templates that name it, and season
  creation copies), and one in which a third entry \<open>C\<close> of department \<^verbatim>\<open>IT\<close> waits
  for \<open>B\<close>.
\<close>

definition taskBDangling :: task where
  "taskBDangling = taskB\<lparr>precedingTasks := [''Z'', ''A'']\<rparr>"

definition snapDangling :: snapshot where
  "snapDangling = \<lparr>seasonId = ''s1'', tasks = [taskA, taskBDangling]\<rparr>"

definition taskCIT :: task where
  "taskCIT = \<lparr>tid = Some ''tc'', order = ''C'', name = ''Upload'', responsible = [''IT''],
              precedingTasks = [''B''], leadTime = 1, actualCompletion = None, remarks = None,
              sourceTemplateActiveOnCreation = True, status = Pending,
              computedDates = \<lparr>cd_start = None, cd_end = None\<rparr>\<rparr>"

definition snapIT :: snapshot where
  "snapIT = \<lparr>seasonId = ''s1'', tasks = [taskADone, taskBReady, taskCIT]\<rparr>"

text \<open>The stores expected after the rejected and after the closing request.\<close>

definition rejectedWorld :: world where
  "rejectedWorld = world0\<lparr>activityLogs :=
      [taskActivity ''u1'' ''s1'' (taskB\<lparr>remarks := Some ''done''\<rparr>) ''UPDATE_REMARKS''
         (RemarksUpdated ''Costing'' ''none'' ''done'')]\<rparr>"

definition closedWorld :: world where
  "closedWorld = world1\<lparr>
      seasons := [(''s1'', season0\<lparr>seasonStatus := Closed, requireAttention := Some []\<rparr>)],
      snapshots := [(''s1'', [taskADone, taskBDone])],
      activityLogs :=
        [taskActivity ''u1'' ''s1'' taskBDone ''UPDATE_COMPLETION_DATE''
           (CompletionUpdated ''Costing'' None 2),
         seasonActivity ''u1'' ''s1'' ''UPDATE_STATUS'' (StatusAutoClosed Open)]\<rparr>"

text \<open>A template with lead time 0, two bodies for the season route, a season on hold.\<close>

definition zeroLeadTemplate :: taskTemplate where
  "zeroLeadTemplate = \<lparr>tt_order = ''C'', tt_name = ''Approval'', defaultResponsible = Some [''QA''],
      defaultPrecedingTasks = Some [''A''], defaultLeadTime = Some 0, isActive = True\<rparr>"

definition holdBody :: seasonBody where
  "holdBody = \<lparr>b_name = None, b_buyer = None, b_status = Some ''On-Hold'',
               b_requireAttention = Absent\<rparr>"

definition attentionBody :: seasonBody where
  "attentionBody = \<lparr>b_name = None, b_buyer = None, b_status = None,
                    b_requireAttention = Value [''PD'']\<rparr>"

definition heldSeason :: season where
  "heldSeason = season0\<lparr>seasonStatus := OnHold, requireAttention := Some []\<rparr>"

definition heldWorld :: world where
  "heldWorld = world0\<lparr>seasons := [(''s1'', heldSeason)]\<rparr>"

section \<open>Properties of date propagation\<close>

lemma sameButDates_refl: "sameButDates t t"
  by (simp add: sameButDates_def)

lemma sameButDates_fields:
  "sameButDates t t' \<Longrightarrow> order t' = order t \<and> actualCompletion t' = actualCompletion t
     \<and> precedingTasks t' = precedingTasks t \<and> leadTime t' = leadTime t \<and> status t' = status t
     \<and> responsible t' = responsible t \<and> tid t' = tid t"
  by (cases t, cases t') (simp add: sameButDates_def)

lemma sameButDates_trans: "sameButDates a b \<Longrightarrow> sameButDates b c \<Longrightarrow> sameButDates a c"
  by (cases a, cases b, cases c) (simp add: sameButDates_def)

lemma latestPredecessor_view:
  "(\<And>p. p \<in> set ps \<Longrightarrow> map_option actualCompletion (m p) = map_option actualCompletion (m' p))
   \<Longrightarrow> latestPredecessor m ps l = latestPredecessor m' ps l"
proof (induction ps arbitrary: l)
  case Nil
  show ?case by simp
next
  case (Cons p ps)
  have h: "map_option actualCompletion (m p) = map_option actualCompletion (m' p)"
    using Cons.prems by simp
  have r: "\<And>l'. latestPredecessor m ps l' = latestPredecessor m' ps l'"
    using Cons.IH Cons.prems by simp
  show ?case using h r
    by (cases "m p"; cases "m' p") (auto split: option.splits)
qed

lemma tasksMap_view:
  "map_option actualCompletion (tasksMap ts p)
     = map_of (rev (map (\<lambda>t. (order t, actualCompletion t)) ts)) p"
proof -
  have "map_option actualCompletion (map_of (rev (map (\<lambda>t. (order t, t)) ts)) p)
        = map_of (map (\<lambda>(k, v). (k, actualCompletion v)) (rev (map (\<lambda>t. (order t, t)) ts))) p"
    by (simp add: map_of_map)
  also have "map (\<lambda>(k, v). (k, actualCompletion v)) (rev (map (\<lambda>t. (order t, t)) ts))
        = rev (map (\<lambda>t. (order t, actualCompletion t)) ts)"
    by (simp add: rev_map)
  finally show ?thesis by (simp add: tasksMap_def)
qed

lemma tasksMap_view_same:
  assumes "list_all2 sameButDates ts ts'"
  shows "map_option actualCompletion (tasksMap ts' p) = map_option actualCompletion (tasksMap ts p)"
proof -
  have "map (\<lambda>t. (order t, actualCompletion t)) ts' = map (\<lambda>t. (order t, actualCompletion t)) ts"
    using assms by (induction rule: list_all2_induct) (auto dest: sameButDates_fields)
  then show ?thesis by (simp add: tasksMap_view)
qed

lemma recalcTask_view:
  "(\<And>p. map_option actualCompletion (m p) = map_option actualCompletion (m' p))
   \<Longrightarrow> recalcTask m c t = recalcTask m' c t"
  using latestPredecessor_view [of "precedingTasks t" m m' None]
  by (simp add: recalcTask_def)

lemma recalcTask_alt:
  "recalcTask m c t =
     (if actualCompletion t \<noteq> None then (t, False)
      else (case readyDate m c t of
              Some d \<Rightarrow>
                if cd_start (computedDates t) \<noteq> Some d
                then (t\<lparr>computedDates := \<lparr>cd_start = Some d, cd_end = Some (addDays d (leadTime t))\<rparr>\<rparr>, True)
                else (t, False)
            | None \<Rightarrow>
                if cd_start (computedDates t) \<noteq> None \<or> cd_end (computedDates t) \<noteq> None
                then (t\<lparr>computedDates := \<lparr>cd_start = None, cd_end = None\<rparr>\<rparr>, True)
                else (t, False)))"
  unfolding recalcTask_def readyDate_def
  by (simp split: prod.split bool.split option.split)

lemma readyDate_update [simp]: "readyDate m c (t\<lparr>computedDates := cd\<rparr>) = readyDate m c t"
  by (simp add: readyDate_def)

lemma recalcTask_same: "sameButDates t (fst (recalcTask m c t))"
  unfolding recalcTask_alt sameButDates_def
  by (simp split: option.split)

lemma list_all2_replace:
  assumes "list_all2 P xs (vs @ t # rest)" and step: "\<And>a. P a t \<Longrightarrow> P a t'"
  shows "list_all2 P xs (vs @ t' # rest)"
proof -
  from assms(1) obtain us ws where xs: "xs = us @ ws" and u: "list_all2 P us vs"
      and w: "list_all2 P ws (t # rest)"
    by (auto simp: list_all2_append2)
  from w obtain z zs where ws: "ws = z # zs" and z: "P z t" and zs: "list_all2 P zs rest"
    by (auto simp: list_all2_Cons2)
  have "list_all2 P (z # zs) (t' # rest)" using step [OF z] zs by simp
  with u show ?thesis unfolding xs ws by (rule list_all2_appendI)
qed

lemma forEachTask_eq:
  "list_all2 sameButDates orig (visited @ rest) \<Longrightarrow>
   forEachTask c visited rest ch =
     (visited @ map (\<lambda>t. fst (recalcTask (tasksMap orig) c t)) rest,
      ch \<or> (\<exists>t \<in> set rest. snd (recalcTask (tasksMap orig) c t)))"
proof (induction rest arbitrary: visited ch)
  case Nil
  show ?case by simp
next
  case (Cons t rest)
  let ?cur = "visited @ t # rest"
  have eq: "recalcTask (tasksMap ?cur) c t = recalcTask (tasksMap orig) c t"
    by (rule recalcTask_view) (rule tasksMap_view_same [OF Cons.prems])
  obtain t' b where tb: "recalcTask (tasksMap orig) c t = (t', b)" by (cases "recalcTask (tasksMap orig) c t")
  have st: "sameButDates t t'" using recalcTask_same [of t "tasksMap orig" c] tb by simp
  have "list_all2 sameButDates orig (visited @ t' # rest)"
    using Cons.prems by (rule list_all2_replace) (erule sameButDates_trans [OF _ st])
  then have "list_all2 sameButDates orig ((visited @ [t']) @ rest)" by simp
  from Cons.IH [OF this] show ?case using eq tb by auto
qed

lemma pass_eq:
  "pass c ts = (map (settle ts c) ts, \<exists>t \<in> set ts. snd (recalcTask (tasksMap ts) c t))"
proof -
  have "list_all2 sameButDates ts ([] @ ts)"
    by (simp add: list_all2_same sameButDates_refl)
  from forEachTask_eq [OF this] show ?thesis
    by (simp add: pass_def settle_def)
qed

lemma settle_same: "list_all2 sameButDates ts (map (settle ts c) ts)"
  by (simp add: list_all2_map2 list_all2_same settle_def recalcTask_same)

lemma recalcTask_settled:
  "recalcTask m c (fst (recalcTask m c t)) = (fst (recalcTask m c t), False)"
  unfolding recalcTask_alt [of m c t]
  by (simp add: recalcTask_alt split: option.split)

lemma pass_settled: "pass c (map (settle ts c) ts) = (map (settle ts c) ts, False)"
proof -
  let ?ts' = "map (settle ts c) ts"
  have v: "\<And>t. recalcTask (tasksMap ?ts') c t = recalcTask (tasksMap ts) c t"
    by (rule recalcTask_view) (rule tasksMap_view_same [OF settle_same])
  have r: "\<And>t. recalcTask (tasksMap ?ts') c (settle ts c t) = (settle ts c t, False)"
    unfolding v settle_def by (rule recalcTask_settled)
  have m: "map (settle ?ts' c) ?ts' = ?ts'"
    unfolding settle_def [of ?ts'] by (simp add: r)
  have b: "\<not> (\<exists>t \<in> set ?ts'. snd (recalcTask (tasksMap ?ts') c t))"
    by (auto simp: r)
  show ?thesis
    unfolding pass_eq [of c ?ts'] using m b by simp
qed

declare recalcLoop.simps [simp del]

lemma recalcLoop_stop: "recalcLoop c m ts False n = (ts, False, n)"
  by (subst recalcLoop.simps) simp

lemma recalcLoop_step:
  "n < m \<Longrightarrow> pass c ts = (ts', b) \<Longrightarrow> recalcLoop c m ts True n = recalcLoop c m ts' b (Suc n)"
  by (subst recalcLoop.simps) simp

lemma recalcRun_eq:
  "\<exists>n. recalcRun ts c = (map (settle ts c) ts, False, n) \<and> 1 \<le> n \<and> n \<le> 2"
proof -
  obtain b where p1: "pass c ts = (map (settle ts c) ts, b)" by (simp add: pass_eq)
  have s1: "recalcRun ts c = recalcLoop c (length ts + 5) (map (settle ts c) ts) b (Suc 0)"
    unfolding recalcRun_def maxIterationsOf_def by (rule recalcLoop_step [OF _ p1]) simp
  show ?thesis
  proof (cases b)
    case False
    then show ?thesis using s1 by (simp add: recalcLoop_stop)
  next
    case True
    have "recalcLoop c (length ts + 5) (map (settle ts c) ts) True (Suc 0)
          = recalcLoop c (length ts + 5) (map (settle ts c) ts) False (Suc (Suc 0))"
      by (rule recalcLoop_step [OF _ pass_settled]) simp
    then show ?thesis using s1 True by (simp add: recalcLoop_stop)
  qed
qed

lemma recalculateAllTaskDates_eq: "recalculateAllTaskDates ts c = map (settle ts c) ts"
  using recalcRun_eq [of ts c] by (auto simp: recalculateAllTaskDates_def)

lemma recalc_nth:
  "i < length ts \<Longrightarrow> recalculateAllTaskDates ts c ! i = settle ts c (ts ! i)"
  by (simp add: recalculateAllTaskDates_eq)

lemma recalc_length [simp]: "length (recalculateAllTaskDates ts c) = length ts"
  by (simp add: recalculateAllTaskDates_eq)

lemma recalc_same: "list_all2 sameButDates ts (recalculateAllTaskDates ts c)"
  by (simp add: recalculateAllTaskDates_eq settle_same)

lemma settle_completed: "actualCompletion t \<noteq> None \<Longrightarrow> settle ts c t = t"
  by (simp add: settle_def recalcTask_def)

lemma recalc_keeps_completed:
  "i < length ts \<Longrightarrow> actualCompletion (ts ! i) \<noteq> None \<Longrightarrow> recalculateAllTaskDates ts c ! i = ts ! i"
  by (simp add: recalc_nth settle_completed)

lemma recalc_fields:
  assumes "i < length ts"
  shows "actualCompletion (recalculateAllTaskDates ts c ! i) = actualCompletion (ts ! i)"
    and "status (recalculateAllTaskDates ts c ! i) = status (ts ! i)"
    and "order (recalculateAllTaskDates ts c ! i) = order (ts ! i)"
    and "precedingTasks (recalculateAllTaskDates ts c ! i) = precedingTasks (ts ! i)"
    and "responsible (recalculateAllTaskDates ts c ! i) = responsible (ts ! i)"
    and "leadTime (recalculateAllTaskDates ts c ! i) = leadTime (ts ! i)"
    and "tid (recalculateAllTaskDates ts c ! i) = tid (ts ! i)"
  using sameButDates_fields [OF list_all2_nthD [OF recalc_same assms, of c]] by simp_all

lemma latestPredecessor_fst:
  "fst (latestPredecessor m ps l) = list_all (isDone m) ps"
  by (induction ps arbitrary: l) (auto simp: isDone_def split: option.splits)

lemma latestPredecessor_Some:
  "list_all (isDone m) ps \<Longrightarrow>
   snd (latestPredecessor m ps (Some x)) = Some (Max (set (x # completionsOf m ps)))"
proof (induction ps arbitrary: x)
  case Nil
  show ?case by (simp add: completionsOf_def)
next
  case (Cons p ps)
  from Cons.prems obtain q d where q: "m p = Some q" and d: "actualCompletion q = Some d"
    by (auto simp: isDone_def split: option.splits)
  have rest: "list_all (isDone m) ps" using Cons.prems by simp
  have c: "completionsOf m (p # ps) = d # completionsOf m ps"
    by (simp add: completionsOf_def q d)
  have "snd (latestPredecessor m (p # ps) (Some x))
        = snd (latestPredecessor m ps (Some (max x d)))"
    by (simp add: q d max_def)
  also have "\<dots> = Some (Max (set (max x d # completionsOf m ps)))"
    by (rule Cons.IH [OF rest])
  also have "Max (set (max x d # completionsOf m ps)) = Max (set (x # completionsOf m (p # ps)))"
  proof -
    have "Max (set (max x d # completionsOf m ps)) = fold max (completionsOf m ps) (max x d)"
      by (rule Max.set_eq_fold)
    moreover have "Max (set (x # d # completionsOf m ps)) = fold max (d # completionsOf m ps) x"
      by (rule Max.set_eq_fold)
    ultimately show ?thesis unfolding c by (simp add: max.commute)
  qed
  finally show ?case .
qed

lemma latestPredecessor_None:
  assumes "list_all (isDone m) ps" and "ps \<noteq> []"
  shows "snd (latestPredecessor m ps None) = Some (Max (set (completionsOf m ps)))"
proof -
  from assms(2) obtain p rest where ps: "ps = p # rest" by (cases ps) auto
  from assms(1) obtain q d where q: "m p = Some q" and d: "actualCompletion q = Some d"
    by (auto simp: ps isDone_def split: option.splits)
  have rest: "list_all (isDone m) rest" using assms(1) by (simp add: ps)
  have c: "completionsOf m ps = d # completionsOf m rest"
    by (simp add: completionsOf_def ps q d)
  have "snd (latestPredecessor m ps None) = snd (latestPredecessor m rest (Some d))"
    by (simp add: ps q d)
  also have "\<dots> = Some (Max (set (d # completionsOf m rest)))"
    by (rule latestPredecessor_Some [OF rest])
  finally show ?thesis by (simp only: c)
qed

lemma readyDate_eq:
  "readyDate (tasksMap ts) c t =
     (if precedingTasks t = [] then Some c
      else if predecessorsDone ts t then Some (Max (set (predecessorCompletions ts t)))
      else None)"
proof (cases "precedingTasks t = []")
  case True
  then show ?thesis by (simp add: readyDate_def)
next
  case ne: False
  show ?thesis
  proof (cases "predecessorsDone ts t")
    case True
    then have a: "list_all (isDone (tasksMap ts)) (precedingTasks t)"
      by (simp add: predecessorsDone_def)
    obtain b r where br: "latestPredecessor (tasksMap ts) (precedingTasks t) None = (b, r)"
      by (cases "latestPredecessor (tasksMap ts) (precedingTasks t) None")
    have "b" using latestPredecessor_fst [of "tasksMap ts" "precedingTasks t" None] a br by simp
    moreover have "r = Some (Max (set (predecessorCompletions ts t)))"
      using latestPredecessor_None [OF a ne] br by (simp add: predecessorCompletions_def)
    ultimately show ?thesis using ne True br by (simp add: readyDate_def)
  next
    case False
    then have a: "\<not> list_all (isDone (tasksMap ts)) (precedingTasks t)"
      by (simp add: predecessorsDone_def)
    obtain b r where br: "latestPredecessor (tasksMap ts) (precedingTasks t) None = (b, r)"
      by (cases "latestPredecessor (tasksMap ts) (precedingTasks t) None")
    have "\<not> b" using latestPredecessor_fst [of "tasksMap ts" "precedingTasks t" None] a br by simp
    then show ?thesis using ne False br by (simp add: readyDate_def)
  qed
qed

lemma settle_open:
  assumes "actualCompletion t = None" and "datesConsistent t"
  shows "computedDates (settle ts c t) =
           (case readyDate (tasksMap ts) c t of
              Some d \<Rightarrow> \<lparr>cd_start = Some d, cd_end = Some (addDays d (leadTime t))\<rparr>
            | None \<Rightarrow> \<lparr>cd_start = None, cd_end = None\<rparr>)"
  using assms unfolding settle_def recalcTask_alt datesConsistent_def
  by (cases "computedDates t") (auto split: option.splits)

text \<open>
  Claim C1. After propagation, an entry that is not completed and has no preceding codes
  starts at the season's creation time. With preceding codes its start is defined exactly
  when every preceding code has an entry with an \<open>actualCompletion\<close>
  (\<open>predecessorsDone\<close>), and is then the maximum of those completion dates; otherwise both
  computed dates are \<^verbatim>\<open>null\<close>. Whenever the start is set, the end is the start plus
  \<open>leadTime\<close> days. The entry is one the program can hold (\<open>entryWf\<close>): not completed
  means no \<open>actualCompletion\<close>, and the stored dates are \<^verbatim>\<open>null\<close>/\<^verbatim>\<open>null\<close> or an end that is
  the start plus the lead time.
\<close>

theorem propagation_rule:
  assumes "i < length ts" and "status (ts ! i) \<noteq> Completed" and "entryWf (ts ! i)"
  shows "let t = ts ! i; cd = computedDates (recalculateAllTaskDates ts c ! i) in
     (precedingTasks t = [] \<longrightarrow> cd_start cd = Some c) \<and>
     (precedingTasks t \<noteq> [] \<longrightarrow>
        (cd_start cd \<noteq> None \<longleftrightarrow> predecessorsDone ts t) \<and>
        (predecessorsDone ts t \<longrightarrow>
           cd_start cd = Some (Max (set (predecessorCompletions ts t)))) \<and>
        (\<not> predecessorsDone ts t \<longrightarrow> cd = \<lparr>cd_start = None, cd_end = None\<rparr>)) \<and>
     (\<forall>d. cd_start cd = Some d \<longrightarrow> cd_end cd = Some (addDays d (leadTime t)))"
proof -
  have ac: "actualCompletion (ts ! i) = None" and dc: "datesConsistent (ts ! i)"
    using assms(2,3) by (simp_all add: entryWf_def)
  have "recalculateAllTaskDates ts c ! i = settle ts c (ts ! i)"
    using assms(1) by (simp add: recalculateAllTaskDates_eq)
  then have cd: "computedDates (recalculateAllTaskDates ts c ! i) =
           (case readyDate (tasksMap ts) c (ts ! i) of
              Some d \<Rightarrow> \<lparr>cd_start = Some d, cd_end = Some (addDays d (leadTime (ts ! i)))\<rparr>
            | None \<Rightarrow> \<lparr>cd_start = None, cd_end = None\<rparr>)"
    using settle_open [OF ac dc] by simp
  show ?thesis
    unfolding Let_def cd readyDate_eq by simp
qed

theorem propagation_rule_witness:
  "1 < length [taskADone, taskB] \<and> status ([taskADone, taskB] ! 1) \<noteq> Completed
   \<and> entryWf ([taskADone, taskB] ! 1) \<and> precedingTasks taskB \<noteq> []
   \<and> predecessorsDone [taskADone, taskB] taskB
   \<and> computedDates (recalculateAllTaskDates [taskADone, taskB] 0 ! 1)
       = \<lparr>cd_start = Some 86400000, cd_end = Some 345600000\<rparr>"
proof -
  have h1: "1 < length [taskADone, taskB]" by simp
  have h2: "status ([taskADone, taskB] ! 1) \<noteq> Completed" by (simp add: taskB_def)
  have h3: "entryWf ([taskADone, taskB] ! 1)"
    by (simp add: taskB_def entryWf_def datesConsistent_def)
  have m: "tasksMap [taskADone, taskB] ''A'' = Some taskADone"
    by (simp add: tasksMap_def taskADone_def taskA_def taskB_def)
  have pt: "precedingTasks taskB = [''A'']" by (simp add: taskB_def)
  have ac: "actualCompletion taskADone = Some 86400000" by (simp add: taskADone_def)
  have d: "predecessorsDone [taskADone, taskB] taskB"
    by (simp add: predecessorsDone_def pt isDone_def m ac)
  have c: "predecessorCompletions [taskADone, taskB] taskB = [86400000]"
    by (simp add: predecessorCompletions_def completionsOf_def pt m ac)
  have nth: "[taskADone, taskB] ! 1 = taskB" by simp
  have ne: "precedingTasks taskB \<noteq> []" by (simp add: taskB_def)
  have lt: "addDays 86400000 (leadTime taskB) = 345600000"
    by (simp add: taskB_def addDays_def msPerDay_def)
  note r = propagation_rule [OF h1 h2 h3, of 0, unfolded Let_def nth]
  have s: "cd_start (computedDates (recalculateAllTaskDates [taskADone, taskB] 0 ! 1))
           = Some 86400000"
    using r ne d c by simp
  have e: "cd_end (computedDates (recalculateAllTaskDates [taskADone, taskB] 0 ! 1))
           = Some 345600000"
    using r s lt by simp
  have "computedDates (recalculateAllTaskDates [taskADone, taskB] 0 ! 1)
        = \<lparr>cd_start = Some 86400000, cd_end = Some 345600000\<rparr>"
    using s e by (cases "computedDates (recalculateAllTaskDates [taskADone, taskB] 0 ! 1)") simp
  then show ?thesis using h1 h2 h3 ne d by simp
qed

text \<open>
  Claim C5. The loop of \<^verbatim>\<open>recalculateAllTaskDates\<close> stops after at most
  \<open>length ts + 5\<close> passes, its last pass changed nothing (\<open>changedInIteration\<close> is false at
  exit, and one more pass over the result changes nothing), and the ceiling is not
  reached. This holds for every task list, whatever its dependency graph, so in
  particular for the graphs the validator accepts.
\<close>

theorem propagation_quiescent:
  "snd (snd (recalcRun ts c)) \<le> length ts + 5
   \<and> \<not> fst (snd (recalcRun ts c))
   \<and> pass c (recalculateAllTaskDates ts c) = (recalculateAllTaskDates ts c, False)
   \<and> \<not> exceededMaxIterations ts c"
proof -
  obtain n where r: "recalcRun ts c = (map (settle ts c) ts, False, n)" and n: "n \<le> 2"
    using recalcRun_eq [of ts c] by blast
  show ?thesis
    using n by (simp add: r recalculateAllTaskDates_def exceededMaxIterations_def
                  maxIterationsOf_def pass_settled)
qed

theorem propagation_quiescent_witness:
  "snd (snd (recalcRun [taskADone, taskB] 0)) \<le> 7
   \<and> \<not> fst (snd (recalcRun [taskADone, taskB] 0))"
  using propagation_quiescent [of "[taskADone, taskB]" 0] by simp

text \<open>
  Claim C2, evaluated. The entry built from a template that is inactive when the season is
  created has status \<open>Completed\<close>, no \<open>actualCompletion\<close> and \<^verbatim>\<open>null\<close> computed dates. The
  propagation skips an entry by its \<open>actualCompletion\<close>, not by its status, so it visits
  this entry and writes computed dates into it.
\<close>

theorem completed_inactive_entry_recalculated:
  "status (snapshotTask inactiveTemplate) = Completed
   \<and> computedDates (snapshotTask inactiveTemplate) = \<lparr>cd_start = None, cd_end = None\<rparr>
   \<and> computedDates (recalculateAllTaskDates [snapshotTask inactiveTemplate] 0 ! 0)
        = \<lparr>cd_start = Some 0, cd_end = Some 172800000\<rparr>"
  by (simp add: recalc_nth settle_def recalcTask_def snapshotTask_def inactiveTemplate_def
        addDays_def msPerDay_def)

section \<open>Properties of attention tracking\<close>

lemma set_setAdd: "set (setAdd d acc) = insert d (set acc)"
  by (auto simp: setAdd_def)

lemma set_addResponsible:
  "set (addResponsible acc t) = set acc \<union> {d \<in> set (responsible t). d \<noteq> []}"
proof -
  have "set (foldl (\<lambda>acc deptName. if deptName \<noteq> [] then setAdd deptName acc else acc) acc ds)
        = set acc \<union> {d \<in> set ds. d \<noteq> []}" for ds
    by (induction ds arbitrary: acc) (auto simp: set_setAdd)
  then show ?thesis by (simp add: addResponsible_def)
qed

lemma set_foldl_attention:
  "set (foldl (\<lambda>acc t. if P t then addResponsible acc t else acc) acc xs)
   = set acc \<union> {d. \<exists>t \<in> set xs. P t \<and> d \<in> set (responsible t) \<and> d \<noteq> []}"
  by (induction xs arbitrary: acc) (auto simp: set_addResponsible)

lemma set_currentRequireAttention:
  "set (currentRequireAttention ts) =
     {d. \<exists>t \<in> set ts. status t = Pending \<and> statusPredecessorsComplete (tasksMap ts) t
                      \<and> d \<in> set (responsible t) \<and> d \<noteq> []}"
  unfolding currentRequireAttention_def
  using set_foldl_attention [of "\<lambda>t. status t = Pending \<and> statusPredecessorsComplete (tasksMap ts) t" "[]" ts]
  by simp

lemma currentRequireAttention_none:
  assumes "list_all (\<lambda>t. status t = Completed) ts"
  shows "currentRequireAttention ts = []"
proof -
  have "set (currentRequireAttention ts) = {}"
    unfolding set_currentRequireAttention using assms by (auto simp: list_all_iff)
  then show ?thesis by simp
qed

text \<open>
  Claim C10. Take a pending entry (without \<open>actualCompletion\<close>) all of whose preceding
  codes have an entry with status \<open>Completed\<close>, at least one of them without an
  \<open>actualCompletion\<close>. Then \<^verbatim>\<open>updateSeasonAttention\<close> puts every (non-empty) department
  name of the entry into \<open>requireAttention\<close>, while \<^verbatim>\<open>recalculateAllTaskDates\<close> leaves the
  entry's computed dates at \<^verbatim>\<open>null\<close>/\<^verbatim>\<open>null\<close>.
\<close>

theorem attention_and_dates_differ:
  assumes "i < length ts" and "status (ts ! i) = Pending" and "actualCompletion (ts ! i) = None"
    and "statusPredecessorsComplete (tasksMap ts) (ts ! i)"
    and "\<exists>p \<in> set (precedingTasks (ts ! i)). \<exists>q. tasksMap ts p = Some q \<and> actualCompletion q = None"
  shows "(\<exists>ra. requireAttention (updateSeasonAttention s ts) = Some ra
              \<and> {d \<in> set (responsible (ts ! i)). d \<noteq> []} \<subseteq> set ra)
         \<and> computedDates (recalculateAllTaskDates ts c ! i) = \<lparr>cd_start = None, cd_end = None\<rparr>"
proof -
  have mem: "ts ! i \<in> set ts" using assms(1) by simp
  have att: "{d \<in> set (responsible (ts ! i)). d \<noteq> []} \<subseteq> set (currentRequireAttention ts)"
    unfolding set_currentRequireAttention using mem assms(2,4) by blast
  from assms(5) have ne: "precedingTasks (ts ! i) \<noteq> []" by auto
  from assms(5) obtain p q where p: "p \<in> set (precedingTasks (ts ! i))"
      and q: "tasksMap ts p = Some q" "actualCompletion q = None"
    by blast
  have "\<not> isDone (tasksMap ts) p" by (simp add: isDone_def q)
  with p have nd: "\<not> predecessorsDone ts (ts ! i)"
    by (auto simp: predecessorsDone_def list_all_iff)
  have rd: "readyDate (tasksMap ts) c (ts ! i) = None"
    using ne nd by (simp add: readyDate_eq)
  have "computedDates (settle ts c (ts ! i)) = \<lparr>cd_start = None, cd_end = None\<rparr>"
    unfolding settle_def recalcTask_alt using assms(3) rd
    by (cases "computedDates (ts ! i)") auto
  then show ?thesis using att assms(1) by (simp add: recalc_nth updateSeasonAttention_def)
qed

theorem attention_and_dates_differ_witness:
  "status ([snapshotTask inactiveTemplate, taskB] ! 1) = Pending
   \<and> statusPredecessorsComplete (tasksMap [snapshotTask inactiveTemplate, taskB])
        ([snapshotTask inactiveTemplate, taskB] ! 1)
   \<and> (\<exists>ra. requireAttention (updateSeasonAttention season0 [snapshotTask inactiveTemplate, taskB])
               = Some ra \<and> ''AM'' \<in> set ra)
   \<and> computedDates (recalculateAllTaskDates [snapshotTask inactiveTemplate, taskB] 0 ! 1)
        = \<lparr>cd_start = None, cd_end = None\<rparr>"
proof -
  let ?ts = "[snapshotTask inactiveTemplate, taskB]"
  have t: "?ts ! 1 = taskB" by simp
  have m: "tasksMap ?ts ''A'' = Some (snapshotTask inactiveTemplate)"
    by (simp add: tasksMap_def snapshotTask_def inactiveTemplate_def taskB_def)
  have h1: "1 < length ?ts" by simp
  have h2: "status (?ts ! 1) = Pending" by (simp add: taskB_def)
  have h3: "actualCompletion (?ts ! 1) = None" by (simp add: taskB_def)
  have pt: "precedingTasks taskB = [''A'']" by (simp add: taskB_def)
  have h4: "statusPredecessorsComplete (tasksMap ?ts) (?ts ! 1)"
    unfolding t by (simp add: statusPredecessorsComplete_def pt m)
                   (simp add: snapshotTask_def inactiveTemplate_def)
  have h5: "\<exists>p \<in> set (precedingTasks (?ts ! 1)). \<exists>q. tasksMap ?ts p = Some q \<and> actualCompletion q = None"
    unfolding t by (simp add: pt m) (simp add: snapshotTask_def)
  have r: "''AM'' \<in> {d \<in> set (responsible (?ts ! 1)). d \<noteq> []}" by (simp add: taskB_def)
  from attention_and_dates_differ [OF h1 h2 h3 h4 h5, of season0 0] r h2 h4
  show ?thesis by blast
qed

section \<open>Properties of snapshot creation\<close>

text \<open>
  Claim C9, as stated, fails: a stored lead time of 0 is not preserved, the entry gets 1.
\<close>

theorem snapshot_zero_lead_time_replaced:
  "defaultLeadTime zeroLeadTemplate = Some 0
   \<and> leadTime (snapshotTasks [zeroLeadTemplate] ! 0) = 1"
  by (simp add: zeroLeadTemplate_def snapshotTasks_def snapshotTask_def)

text \<open>
  Claim C9, amended. Each entry built by the map over the templates copies order, name,
  responsible and preceding codes from its template (a missing list becoming empty); its
  lead time is 1 when the template's value is missing or 0 and the template's value
  otherwise; its status is \<open>Pending\<close> exactly when the template is active, and the entry of
  an inactive template is built \<open>Completed\<close>, without \<open>actualCompletion\<close> and with
  \<^verbatim>\<open>null\<close> computed dates.
\<close>

theorem snapshot_entries:
  assumes "i < length taskTemplates"
  shows "let tt = taskTemplates ! i; e = snapshotTasks taskTemplates ! i in
     length (snapshotTasks taskTemplates) = length taskTemplates
     \<and> order e = tt_order tt \<and> name e = tt_name tt
     \<and> responsible e = (case defaultResponsible tt of Some r \<Rightarrow> r | None \<Rightarrow> [])
     \<and> precedingTasks e = (case defaultPrecedingTasks tt of Some p \<Rightarrow> p | None \<Rightarrow> [])
     \<and> (defaultLeadTime tt = None \<or> defaultLeadTime tt = Some 0 \<longrightarrow> leadTime e = 1)
     \<and> (\<forall>l. defaultLeadTime tt = Some l \<and> l \<noteq> 0 \<longrightarrow> leadTime e = l)
     \<and> (status e = Pending \<longleftrightarrow> isActive tt)
     \<and> (\<not> isActive tt \<longrightarrow>
          status e = Completed \<and> actualCompletion e = None
          \<and> computedDates e = \<lparr>cd_start = None, cd_end = None\<rparr>)"
  using assms by (auto simp: snapshotTasks_def snapshotTask_def Let_def)

theorem snapshot_entries_witness:
  "leadTime (snapshotTasks [inactiveTemplate, zeroLeadTemplate] ! 0) = 2
   \<and> status (snapshotTasks [inactiveTemplate, zeroLeadTemplate] ! 0) = Completed
   \<and> computedDates (snapshotTasks [inactiveTemplate, zeroLeadTemplate] ! 0)
        = \<lparr>cd_start = None, cd_end = None\<rparr>
   \<and> leadTime (snapshotTasks [inactiveTemplate, zeroLeadTemplate] ! 1) = 1
   \<and> status (snapshotTasks [inactiveTemplate, zeroLeadTemplate] ! 1) = Pending"
proof -
  have h0: "0 < length [inactiveTemplate, zeroLeadTemplate]" by simp
  have h1: "1 < length [inactiveTemplate, zeroLeadTemplate]" by simp
  have f: "defaultLeadTime inactiveTemplate = Some 2" "\<not> isActive inactiveTemplate"
          "defaultLeadTime zeroLeadTemplate = Some 0" "isActive zeroLeadTemplate"
    by (simp_all add: inactiveTemplate_def zeroLeadTemplate_def)
  have n: "[inactiveTemplate, zeroLeadTemplate] ! 0 = inactiveTemplate"
          "[inactiveTemplate, zeroLeadTemplate] ! 1 = zeroLeadTemplate"
    by simp_all
  show ?thesis
    using snapshot_entries [OF h0, unfolded Let_def n] snapshot_entries [OF h1, unfolded Let_def n] f
    by simp
qed

lemma entryWf_snapshotTask: "entryWf (snapshotTask tt)"
  by (simp add: entryWf_def datesConsistent_def snapshotTask_def)

lemma entryWf_settle: "entryWf t \<Longrightarrow> entryWf (settle ts c t)"
  unfolding settle_def recalcTask_alt entryWf_def datesConsistent_def
  by (auto split: option.splits)

lemma entryWf_recalculate:
  "list_all entryWf ts \<Longrightarrow> list_all entryWf (recalculateAllTaskDates ts c)"
  by (simp add: recalculateAllTaskDates_eq list_all_iff entryWf_settle)

lemma entryWf_seedSnapshot: "list_all entryWf (snd (seedSnapshot taskTemplates s))"
  unfolding seedSnapshot_def Let_def snd_conv
  by (rule entryWf_recalculate) (simp add: snapshotTasks_def list_all_iff entryWf_snapshotTask)

section \<open>Properties of template order validation\<close>

text \<open>
  Claim C4, as stated, fails. Under the specification's ordering \<open>B\<close> comes before
  \<open>AA\<close>, yet \<^verbatim>\<open>validatePrecedingOrderAlphabetical\<close> compares with JavaScript's \<^verbatim>\<open>>=\<close> on
  strings and rejects \<open>B\<close> as a predecessor of \<open>AA\<close>.
\<close>

theorem order_validation_rejects_shorter_code:
  "specOrderLess ''B'' ''AA''
   \<and> \<not> isValid (validatePrecedingOrderAlphabetical ''AA'' (Some [''B'']))
   \<and> invalidTasks (validatePrecedingOrderAlphabetical ''AA'' (Some [''B''])) = [''B'']"
  by (simp add: specOrderLess_def validatePrecedingOrderAlphabetical_def)

lemma order_validation_accepts_longer_code:
  "\<not> specOrderLess ''AA'' ''B''
   \<and> isValid (validatePrecedingOrderAlphabetical ''B'' (Some [''AA'']))"
  by (simp add: specOrderLess_def validatePrecedingOrderAlphabetical_def)

lemma specOrderLess_same_length:
  "length a = length b \<Longrightarrow> specOrderLess a b = jsStringLess a b"
  by (simp add: specOrderLess_def)

lemma jsStringLess_irrefl: "\<not> jsStringLess a a"
  by (induction a) auto

text \<open>
  Claim C4, amended. The validator accepts a list of preceding codes exactly when every one
  of them is strictly smaller than the candidate in the left-to-right comparison of
  strings (a proper prefix is smaller; \<open>jsStringLess\<close>); the codes it returns on rejection
  are exactly the others, in the order given. A missing list is accepted.
\<close>

theorem order_validation_lexicographic:
  "(isValid (validatePrecedingOrderAlphabetical currentOrder (Some pts))
      \<longleftrightarrow> (\<forall>p \<in> set pts. jsStringLess p currentOrder))
   \<and> invalidTasks (validatePrecedingOrderAlphabetical currentOrder (Some pts))
       = filter (\<lambda>p. \<not> jsStringLess p currentOrder) pts
   \<and> validatePrecedingOrderAlphabetical currentOrder None = \<lparr>isValid = True, invalidTasks = []\<rparr>"
  by (auto simp: validatePrecedingOrderAlphabetical_def filter_empty_conv)

theorem order_validation_lexicographic_witness:
  "\<not> isValid (validatePrecedingOrderAlphabetical ''C'' (Some [''A'', ''D'', ''AB'', ''C'']))
   \<and> invalidTasks (validatePrecedingOrderAlphabetical ''C'' (Some [''A'', ''D'', ''AB'', ''C'']))
       = [''D'', ''C'']
   \<and> isValid (validatePrecedingOrderAlphabetical ''C'' (Some [''A'', ''AB'']))"
  using order_validation_lexicographic [of "''C''" "[''A'', ''D'', ''AB'', ''C'']"]
        order_validation_lexicographic [of "''C''" "[''A'', ''AB'']"]
  by simp

section \<open>Properties of the task update transaction\<close>

lemma sameButLogs_refl: "sameButLogs w w"
  by (simp add: sameButLogs_def)

lemma sameButLogs_trans: "sameButLogs a b \<Longrightarrow> sameButLogs b c \<Longrightarrow> sameButLogs a c"
  by (cases a, cases b, cases c) (simp add: sameButLogs_def)

lemma sameButLogs_logActivity: "sameButLogs w (logActivity a w)"
  by (simp add: sameButLogs_def logActivity_def)

lemma sameButLogs_fields:
  "sameButLogs w w' \<Longrightarrow> seasons w' = seasons w \<and> snapshots w' = snapshots w \<and> users w' = users w
     \<and> emailLogs w' = emailLogs w"
  by (cases w, cases w') (simp add: sameButLogs_def)

lemma applyRemarks_world:
  "applyRemarks userId sid r i ts w = (ts1, ch, w1) \<Longrightarrow> sameButLogs w w1"
  by (auto simp: applyRemarks_def Let_def sameButLogs_refl sameButLogs_logActivity
           split: option.splits if_splits)

lemma applyCompletion_world:
  "applyCompletion userId sid el ac i ts w = Inr (ts2, ch, w2) \<Longrightarrow> sameButLogs w w2"
  by (auto simp: applyCompletion_def Let_def sameButLogs_refl sameButLogs_logActivity
           split: option.splits if_splits)

lemma saveSeason_Some:
  "saveSeason sid s w = Some w' \<Longrightarrow>
     w' = w\<lparr>seasons := AList.update sid s (seasons w)\<rparr> \<and> seasonValid s"
  by (simp add: saveSeason_def split: if_splits)

lemma seasonValid_cleared [simp]:
  "seasonValid (s\<lparr>seasonStatus := st, requireAttention := Some []\<rparr>)"
  by (simp add: seasonValid_def)

lemma saveSeason_cleared [simp]:
  "saveSeason sid (s\<lparr>seasonStatus := st, requireAttention := Some []\<rparr>) w
     = Some (w\<lparr>seasons := AList.update sid (s\<lparr>seasonStatus := st, requireAttention := Some []\<rparr>)
                             (seasons w)\<rparr>)"
  by (simp add: saveSeason_def)

lemma sendEmails_fields:
  "sendEmails sid tn rs w = (b, w') \<Longrightarrow>
     seasons w' = seasons w \<and> snapshots w' = snapshots w \<and> activityLogs w' = activityLogs w"
  by (induction rs arbitrary: w) (auto split: if_splits)

lemma notifyTasks_fields:
  "seasons (notifyTasks sid ns w) = seasons w \<and> snapshots (notifyTasks sid ns w) = snapshots w
   \<and> activityLogs (notifyTasks sid ns w) = activityLogs w"
proof (induction ns arbitrary: w)
  case Nil
  show ?case by simp
next
  case (Cons t ns)
  show ?case
  proof (cases "departmentIds w (responsible t) \<noteq> []")
    case False
    then show ?thesis using Cons.IH by simp
  next
    case True
    obtain b w' where s: "sendEmails sid (name t) (usersToNotify w (departmentIds w (responsible t))) w = (b, w')"
      by (cases "sendEmails sid (name t) (usersToNotify w (departmentIds w (responsible t))) w")
    show ?thesis using True s sendEmails_fields [OF s] Cons.IH [of w']
      by (cases b) simp_all
  qed
qed

lemma notifyNewlyActionable_fields:
  "seasons (notifyNewlyActionable sid ts t w) = seasons w
   \<and> snapshots (notifyNewlyActionable sid ts t w) = snapshots w
   \<and> activityLogs (notifyNewlyActionable sid ts t w) = activityLogs w"
  by (simp add: notifyNewlyActionable_def notifyTasks_fields)

lemma progressSeason_error:
  "progressSeason userId sid i ts w = (Inl e, w') \<Longrightarrow>
     seasons w' = seasons w \<and> snapshots w' = snapshots w \<and> activityLogs w' = activityLogs w
     \<and> (e \<noteq> StoreValidationError \<longrightarrow> w' = w)"
  by (auto simp: progressSeason_def Let_def notifyNewlyActionable_fields
           split: option.splits if_splits)

lemma example_rejected:
  "updateTaskAndProgressSeason world0 ''u1'' snap0 ''tb'' remarkAndCompleteB
     = (Inl (HttpError 400 (notDoneMessage taskA)), rejectedWorld)"
  by (simp add: updateTaskAndProgressSeason_def world0_def snap0_def remarkAndCompleteB_def
        taskA_def taskB_def applyRemarks_def applyCompletion_def Let_def logActivity_def
        taskActivity_def tasksMap_def rejectedWorld_def dayOf_def activityActions_def
        trim_def isSpaceChar_def)

lemma example_closed:
  "updateTaskAndProgressSeason world1 ''u1'' snap1 ''tb'' completeB
     = (Inr \<lparr>hasChanged = True, updatedTasks = [taskADone, taskBDone], message = None\<rparr>,
        closedWorld)"
  by (simp add: updateTaskAndProgressSeason_def world1_def world0_def snap1_def completeB_def
        taskA_def taskB_def taskADone_def taskBReady_def taskBDone_def
        applyRemarks_def applyCompletion_def Let_def logActivity_def
        taskActivity_def seasonActivity_def tasksMap_def closedWorld_def dayOf_def
        tzOffset_def msPerDay_def
        progressSeason_def recalculateAllTaskDates_eq settle_def recalcTask_def
        notifyNewlyActionable_def newlyActionableTasks_def updateSeasonAttention_def
        currentRequireAttention_def season0_def saveSeason_def seasonValid_def
        activityActions_def)

text \<open>
  Claim C7. When \<^verbatim>\<open>updateTaskAndProgressSeason\<close> throws, whatever the error, the stored
  seasons and the stored snapshots are those from before the call. For the errors the
  function raises itself (those with a status, and the \<^verbatim>\<open>TypeError\<close>) the only collection that
  can differ is the activity log (\<open>sameButLogs\<close>), which may already hold the entry of a
  remarks change; the validation error of \<^verbatim>\<open>season.save()\<close> comes after the notifications.
\<close>

theorem update_error_atomic:
  assumes "updateTaskAndProgressSeason w userId snap taskId upd = (Inl e, w')"
  shows "seasons w' = seasons w \<and> snapshots w' = snapshots w
         \<and> (e \<noteq> StoreValidationError \<longrightarrow> sameButLogs w w')"
proof (cases "map_of (users w) userId")
  case None
  with assms show ?thesis by (simp add: updateTaskAndProgressSeason_def sameButLogs_refl)
next
  case (Some u)
  show ?thesis
  proof (cases "findIndex (\<lambda>t. tid t = Some taskId) (tasks snap)")
    case None
    with Some assms show ?thesis by (simp add: updateTaskAndProgressSeason_def sameButLogs_refl)
  next
    case (Some i)
    obtain ts1 ch1 w1 where r: "applyRemarks userId (seasonId snap) (ud_remarks upd) i (tasks snap) w = (ts1, ch1, w1)"
      by (cases "applyRemarks userId (seasonId snap) (ud_remarks upd) i (tasks snap) w") auto
    have l1: "sameButLogs w w1" by (rule applyRemarks_world [OF r])
    show ?thesis
    proof (cases "applyCompletion userId (seasonId snap) (isAdminOrPlanner u) (ud_actualCompletion upd) i ts1 w1")
      case (Inl e')
      with assms \<open>map_of (users w) userId = Some u\<close> Some r have "w' = w1"
        by (simp add: updateTaskAndProgressSeason_def)
      with l1 show ?thesis by (simp add: sameButLogs_fields)
    next
      case (Inr x)
      obtain ts2 ch2 w2 where x: "x = (ts2, ch2, w2)" by (cases x) auto
      have l2: "sameButLogs w1 w2" using applyCompletion_world Inr x by blast
      have l: "sameButLogs w w2" using l1 l2 by (rule sameButLogs_trans)
      from assms \<open>map_of (users w) userId = Some u\<close> Some r Inr x
      have "progressSeason userId (seasonId snap) i ts2 w2 = (Inl e, w')"
        by (simp add: updateTaskAndProgressSeason_def split: if_splits)
      from progressSeason_error [OF this] l sameButLogs_fields [OF l]
      show ?thesis by auto
    qed
  qed
qed

theorem update_error_atomic_witness:
  "updateTaskAndProgressSeason world0 ''u1'' snap0 ''tb'' remarkAndCompleteB
     = (Inl (HttpError 400 (notDoneMessage taskA)), rejectedWorld)
   \<and> seasons rejectedWorld = seasons world0 \<and> snapshots rejectedWorld = snapshots world0
   \<and> sameButLogs world0 rejectedWorld"
  using update_error_atomic [OF example_rejected] example_rejected by simp

lemma sameButRemarks_refl: "sameButRemarks t t"
  by (simp add: sameButRemarks_def)

lemma sameButRemarks_fields:
  "sameButRemarks t t' \<Longrightarrow> order t' = order t \<and> actualCompletion t' = actualCompletion t
     \<and> precedingTasks t' = precedingTasks t \<and> status t' = status t \<and> name t' = name t
     \<and> tid t' = tid t \<and> computedDates t' = computedDates t \<and> leadTime t' = leadTime t"
  by (cases t, cases t') (simp add: sameButRemarks_def)

lemma map_of_rel:
  "list_all2 (\<lambda>(k, v) (k', v'). k = k' \<and> R v v') xs ys \<Longrightarrow> rel_option R (map_of xs p) (map_of ys p)"
  by (induction rule: list_all2_induct) auto

lemma tasksMap_rel:
  assumes "list_all2 R ts ts'" and "\<And>t t'. R t t' \<Longrightarrow> order t' = order t"
  shows "rel_option R (tasksMap ts p) (tasksMap ts' p)"
proof -
  have "list_all2 (\<lambda>(k, v) (k', v'). k = k' \<and> R v v')
          (map (\<lambda>t. (order t, t)) ts) (map (\<lambda>t. (order t, t)) ts')"
    using assms by (induction rule: list_all2_induct) auto
  then have "list_all2 (\<lambda>(k, v) (k', v'). k = k' \<and> R v v')
          (rev (map (\<lambda>t. (order t, t)) ts)) (rev (map (\<lambda>t. (order t, t)) ts'))"
    by (simp only: list_all2_rev)
  then show ?thesis unfolding tasksMap_def by (rule map_of_rel)
qed

lemma checkPredecessors_rel:
  assumes "\<And>p. rel_option sameButRemarks (m p) (m' p)"
  shows "checkPredecessors m' ps = checkPredecessors m ps"
proof (induction ps)
  case Nil
  show ?case by simp
next
  case (Cons p ps)
  show ?case
  proof (cases "m p")
    case None
    with assms [of p] have "m' p = None" by (cases "m' p") auto
    with None show ?thesis by simp
  next
    case (Some q)
    with assms [of p] obtain q' where q': "m' p = Some q'" and r: "sameButRemarks q q'"
      by (cases "m' p") auto
    show ?thesis using Some q' sameButRemarks_fields [OF r] Cons.IH
      by (simp add: notDoneMessage_def)
  qed
qed

lemma checkPredecessors_None:
  "(checkPredecessors m ps = None) =
     list_all (\<lambda>p. case m p of None \<Rightarrow> False | Some q \<Rightarrow> status q = Completed) ps"
  by (induction ps) (auto split: option.splits)

lemma checkPredecessors_400:
  assumes "\<forall>p \<in> set ps. m p \<noteq> None"
    and "\<exists>p \<in> set ps. \<exists>q. m p = Some q \<and> status q \<noteq> Completed"
  shows "\<exists>msg. checkPredecessors m ps = Some (HttpError 400 msg)"
  using assms by (induction ps) (auto split: option.splits)

lemma applyRemarks_tasks:
  assumes "applyRemarks userId sid r i ts w = (ts1, ch, w1)" and "i < length ts"
  shows "list_all2 sameButRemarks ts ts1"
proof -
  have "list_all2 sameButRemarks ts (ts[i := (ts ! i)\<lparr>remarks := x\<rparr>])" for x
    using assms(2)
    by (auto simp: list_all2_conv_all_nth nth_list_update sameButRemarks_def)
  moreover have "list_all2 sameButRemarks ts ts"
    by (simp add: list_all2_same sameButRemarks_refl)
  ultimately show ?thesis using assms(1)
    by (auto simp: applyRemarks_def Let_def split: option.splits if_splits)
qed

lemma findIndex_Some:
  "findIndex P xs = Some i \<Longrightarrow> i < length xs \<and> P (xs ! i)"
  by (induction xs arbitrary: i) (auto split: if_splits)

lemma progressSeason_fst:
  "fst (progressSeason userId sid i ts w) =
     (case map_of (seasons w) sid of
        None \<Rightarrow> Inl (HttpError 404 ''Associated season not found'')
      | Some s \<Rightarrow>
          if seasonValid (updateSeasonAttention s (recalculateAllTaskDates ts (createdAt s)))
          then Inr \<lparr>hasChanged = True,
                    updatedTasks = recalculateAllTaskDates ts (createdAt s), message = None\<rparr>
          else Inl StoreValidationError)"
  by (simp add: progressSeason_def Let_def saveSeason_def split: option.split)

lemma update_completion_unfold:
  assumes u: "map_of (users w) userId = Some u"
    and i: "findIndex (\<lambda>t. tid t = Some taskId) (tasks snap) = Some i"
    and ac: "ud_actualCompletion upd = Some (Some d)"
    and day: "map_option dayOf (actualCompletion (tasks snap ! i)) \<noteq> Some (dayOf d)"
  shows "\<exists>ts1. list_all2 sameButRemarks (tasks snap) ts1 \<and>
     fst (updateTaskAndProgressSeason w userId snap taskId upd) =
       (if status (tasks snap ! i) = Completed \<and> \<not> isAdminOrPlanner u
        then Inl (HttpError 403 ''This task is already completed and cannot be changed.'')
        else (case checkPredecessors (tasksMap (tasks snap)) (precedingTasks (tasks snap ! i)) of
                Some e \<Rightarrow> Inl e
              | None \<Rightarrow>
                  (case map_of (seasons w) (seasonId snap) of
                     None \<Rightarrow> Inl (HttpError 404 ''Associated season not found'')
                   | Some s \<Rightarrow>
                       if seasonValid
                            (updateSeasonAttention s
                               (recalculateAllTaskDates
                                  (ts1[i := completeTask d (ts1 ! i)]) (createdAt s)))
                       then Inr \<lparr>hasChanged = True,
                                 updatedTasks = recalculateAllTaskDates
                                                  (ts1[i := completeTask d (ts1 ! i)]) (createdAt s),
                                 message = None\<rparr>
                       else Inl StoreValidationError)))"
proof -
  have il: "i < length (tasks snap)" using findIndex_Some [OF i] by simp
  obtain ts1 ch1 w1 where r: "applyRemarks userId (seasonId snap) (ud_remarks upd) i (tasks snap) w = (ts1, ch1, w1)"
    by (cases "applyRemarks userId (seasonId snap) (ud_remarks upd) i (tasks snap) w") auto
  have rel: "list_all2 sameButRemarks (tasks snap) ts1" by (rule applyRemarks_tasks [OF r il])
  have f: "status (ts1 ! i) = status (tasks snap ! i)"
          "actualCompletion (ts1 ! i) = actualCompletion (tasks snap ! i)"
          "precedingTasks (ts1 ! i) = precedingTasks (tasks snap ! i)"
    using sameButRemarks_fields [OF list_all2_nthD [OF rel il]] by simp_all
  have cp: "checkPredecessors (tasksMap ts1) ps = checkPredecessors (tasksMap (tasks snap)) ps" for ps
    by (rule checkPredecessors_rel) (rule tasksMap_rel [OF rel], simp add: sameButRemarks_fields)
  have s1: "seasons w1 = seasons w"
    using sameButLogs_fields [OF applyRemarks_world [OF r]] by simp
  have day': "Some (dayOf d) \<noteq> map_option dayOf (actualCompletion (tasks snap ! i))"
    using day by (cases "actualCompletion (tasks snap ! i)") auto
  have "fst (updateTaskAndProgressSeason w userId snap taskId upd) =
       (if status (tasks snap ! i) = Completed \<and> \<not> isAdminOrPlanner u
        then Inl (HttpError 403 ''This task is already completed and cannot be changed.'')
        else (case checkPredecessors (tasksMap (tasks snap)) (precedingTasks (tasks snap ! i)) of
                Some e \<Rightarrow> Inl e
              | None \<Rightarrow>
                  (case map_of (seasons w) (seasonId snap) of
                     None \<Rightarrow> Inl (HttpError 404 ''Associated season not found'')
                   | Some s \<Rightarrow>
                       if seasonValid
                            (updateSeasonAttention s
                               (recalculateAllTaskDates
                                  (ts1[i := completeTask d (ts1 ! i)]) (createdAt s)))
                       then Inr \<lparr>hasChanged = True,
                                 updatedTasks = recalculateAllTaskDates
                                                  (ts1[i := completeTask d (ts1 ! i)]) (createdAt s),
                                 message = None\<rparr>
                       else Inl StoreValidationError)))"
    unfolding updateTaskAndProgressSeason_def
    by (simp add: u i r applyCompletion_def ac Let_def f cp day' progressSeason_fst s1
          logActivity_def completeTask_def
          split: option.split)
  with rel show ?thesis by blast
qed

lemma completion_preconditions_resolved:
  assumes u: "map_of (users w) userId = Some u"
    and i: "findIndex (\<lambda>t. tid t = Some taskId) (tasks snap) = Some i"
    and ac: "ud_actualCompletion upd = Some (Some d)"
    and day: "map_option dayOf (actualCompletion (tasks snap ! i)) \<noteq> Some (dayOf d)"
  shows "(status (tasks snap ! i) = Completed \<and> \<not> isAdminOrPlanner u \<longrightarrow>
            fst (updateTaskAndProgressSeason w userId snap taskId upd)
              = Inl (HttpError 403 ''This task is already completed and cannot be changed.''))
       \<and> (\<not> (status (tasks snap ! i) = Completed \<and> \<not> isAdminOrPlanner u)
            \<and> (\<forall>p \<in> set (precedingTasks (tasks snap ! i)). tasksMap (tasks snap) p \<noteq> None)
            \<and> (\<exists>p \<in> set (precedingTasks (tasks snap ! i)).
                  \<exists>q. tasksMap (tasks snap) p = Some q \<and> status q \<noteq> Completed) \<longrightarrow>
            (\<exists>msg. fst (updateTaskAndProgressSeason w userId snap taskId upd)
                      = Inl (HttpError 400 msg)))
       \<and> (\<forall>res. fst (updateTaskAndProgressSeason w userId snap taskId upd) = Inr res \<longrightarrow>
            hasChanged res
            \<and> \<not> (status (tasks snap ! i) = Completed \<and> \<not> isAdminOrPlanner u)
            \<and> statusPredecessorsComplete (tasksMap (tasks snap)) (tasks snap ! i)
            \<and> actualCompletion (updatedTasks res ! i) = Some d
            \<and> status (updatedTasks res ! i) = Completed)
       \<and> (\<not> (status (tasks snap ! i) = Completed \<and> \<not> isAdminOrPlanner u)
            \<and> statusPredecessorsComplete (tasksMap (tasks snap)) (tasks snap ! i)
            \<and> map_of (seasons w) (seasonId snap) \<noteq> None \<longrightarrow>
            (\<exists>res. fst (updateTaskAndProgressSeason w userId snap taskId upd) = Inr res)
            \<or> fst (updateTaskAndProgressSeason w userId snap taskId upd)
                 = Inl StoreValidationError)"
proof -
  let ?t = "tasks snap ! i"
  let ?r = "fst (updateTaskAndProgressSeason w userId snap taskId upd)"
  from update_completion_unfold [OF u i ac day] obtain ts1
    where rel: "list_all2 sameButRemarks (tasks snap) ts1"
      and eq: "?r =
       (if status ?t = Completed \<and> \<not> isAdminOrPlanner u
        then Inl (HttpError 403 ''This task is already completed and cannot be changed.'')
        else (case checkPredecessors (tasksMap (tasks snap)) (precedingTasks ?t) of
                Some e \<Rightarrow> Inl e
              | None \<Rightarrow>
                  (case map_of (seasons w) (seasonId snap) of
                     None \<Rightarrow> Inl (HttpError 404 ''Associated season not found'')
                   | Some s \<Rightarrow>
                       if seasonValid
                            (updateSeasonAttention s
                               (recalculateAllTaskDates
                                  (ts1[i := completeTask d (ts1 ! i)]) (createdAt s)))
                       then Inr \<lparr>hasChanged = True,
                                 updatedTasks = recalculateAllTaskDates
                                                  (ts1[i := completeTask d (ts1 ! i)]) (createdAt s),
                                 message = None\<rparr>
                       else Inl StoreValidationError)))"
    by blast
  have il: "i < length ts1"
    using findIndex_Some [OF i] list_all2_lengthD [OF rel] by simp
  have spc: "statusPredecessorsComplete (tasksMap (tasks snap)) ?t
             = (checkPredecessors (tasksMap (tasks snap)) (precedingTasks ?t) = None)"
    by (simp add: statusPredecessorsComplete_def checkPredecessors_None)
  have p1: "status ?t = Completed \<and> \<not> isAdminOrPlanner u \<longrightarrow>
            ?r = Inl (HttpError 403 ''This task is already completed and cannot be changed.'')"
    using eq by simp
  have p2: "\<not> (status ?t = Completed \<and> \<not> isAdminOrPlanner u)
            \<and> (\<forall>p \<in> set (precedingTasks ?t). tasksMap (tasks snap) p \<noteq> None)
            \<and> (\<exists>p \<in> set (precedingTasks ?t).
                  \<exists>q. tasksMap (tasks snap) p = Some q \<and> status q \<noteq> Completed) \<longrightarrow>
            (\<exists>msg. ?r = Inl (HttpError 400 msg))"
  proof (intro impI, elim conjE)
    assume a: "\<not> (status ?t = Completed \<and> \<not> isAdminOrPlanner u)"
      and b: "\<forall>p \<in> set (precedingTasks ?t). tasksMap (tasks snap) p \<noteq> None"
      and c: "\<exists>p \<in> set (precedingTasks ?t). \<exists>q. tasksMap (tasks snap) p = Some q \<and> status q \<noteq> Completed"
    from checkPredecessors_400 [OF b c] obtain msg
      where "checkPredecessors (tasksMap (tasks snap)) (precedingTasks ?t) = Some (HttpError 400 msg)"
      by blast
    with a eq show "\<exists>msg. ?r = Inl (HttpError 400 msg)" by simp
  qed
  have fields: "actualCompletion (recalculateAllTaskDates (ts1[i := completeTask d (ts1 ! i)]) c ! i) = Some d
              \<and> status (recalculateAllTaskDates (ts1[i := completeTask d (ts1 ! i)]) c ! i) = Completed" for c
    using il by (simp add: recalc_fields completeTask_def)
  have p3: "\<forall>res. ?r = Inr res \<longrightarrow>
            hasChanged res
            \<and> \<not> (status ?t = Completed \<and> \<not> isAdminOrPlanner u)
            \<and> statusPredecessorsComplete (tasksMap (tasks snap)) ?t
            \<and> actualCompletion (updatedTasks res ! i) = Some d
            \<and> status (updatedTasks res ! i) = Completed"
    unfolding eq spc using fields
    by (auto split: if_splits option.splits)
  have p4: "\<not> (status ?t = Completed \<and> \<not> isAdminOrPlanner u)
            \<and> statusPredecessorsComplete (tasksMap (tasks snap)) ?t
            \<and> map_of (seasons w) (seasonId snap) \<noteq> None \<longrightarrow>
            (\<exists>res. ?r = Inr res) \<or> ?r = Inl StoreValidationError"
    unfolding eq spc by (auto split: option.splits)
  from p1 p2 p3 p4 show ?thesis by blast
qed

text \<open>
  Claim C6, evaluated. \<open>B\<close> is pending, its preceding codes are \<open>Z\<close>, which has no entry,
  and \<open>A\<close>, whose entry is pending, and a valid completion date is sent for \<open>B\<close>. The
  prerequisite loop stops at \<open>Z\<close>, and building the message of the 400 error reads
  \<^verbatim>\<open>predecessor.name\<close> of \<^verbatim>\<open>undefined\<close>: the call throws a \<^verbatim>\<open>TypeError\<close>, not the 400
  error, although a preceding entry is not completed.
\<close>

theorem completion_dangling_code_throws_type_error:
  "map_of (users world0) ''u1'' \<noteq> None
   \<and> findIndex (\<lambda>t. tid t = Some ''tb'') (tasks snapDangling) = Some 1
   \<and> status (tasks snapDangling ! 1) = Pending
   \<and> precedingTasks (tasks snapDangling ! 1) = [''Z'', ''A'']
   \<and> tasksMap (tasks snapDangling) ''Z'' = None
   \<and> tasksMap (tasks snapDangling) ''A'' = Some taskA \<and> status taskA = Pending
   \<and> fst (updateTaskAndProgressSeason world0 ''u1'' snapDangling ''tb'' completeB)
       = Inl TypeError"
  by (simp add: updateTaskAndProgressSeason_def world0_def snapDangling_def completeB_def
        taskA_def taskB_def taskBDangling_def applyRemarks_def applyCompletion_def Let_def
        tasksMap_def dayOf_def)

lemma example_store_rejects:
  "fst (updateTaskAndProgressSeason world1 ''u1'' snapIT ''tb'' completeB)
     = Inl StoreValidationError
   \<and> seasons (snd (updateTaskAndProgressSeason world1 ''u1'' snapIT ''tb'' completeB))
       = seasons world1
   \<and> snapshots (snd (updateTaskAndProgressSeason world1 ''u1'' snapIT ''tb'' completeB))
       = snapshots world1"
  by (simp add: updateTaskAndProgressSeason_def world1_def world0_def snapIT_def completeB_def
        taskA_def taskB_def taskADone_def taskBReady_def taskCIT_def
        applyRemarks_def applyCompletion_def Let_def logActivity_def
        taskActivity_def tasksMap_def dayOf_def tzOffset_def msPerDay_def
        progressSeason_def recalculateAllTaskDates_eq settle_def recalcTask_def
        latestPredecessor.simps
        notifyNewlyActionable_def newlyActionableTasks_def departmentIds_def
        updateSeasonAttention_def currentRequireAttention_def addResponsible_def setAdd_def
        statusPredecessorsComplete_def season0_def saveSeason_def seasonValid_def
        requireAttentionEnum_def)

lemma progressSeason_closes:
  assumes s: "map_of (seasons w) sid = Some s" and notClosed: "seasonStatus s \<noteq> Closed"
    and run: "progressSeason userId sid i ts w = (Inr res, w')"
    and allDone: "list_all (\<lambda>t. status t = Completed) (updatedTasks res)"
  shows "\<exists>s'. map_of (seasons w') sid = Some s' \<and> seasonStatus s' = Closed
              \<and> requireAttention s' = Some []
              \<and> (userId \<noteq> [] \<longrightarrow>
                   activityLogs w' = activityLogs w @
                     [seasonActivity userId sid ''UPDATE_STATUS''
                        (StatusAutoClosed (seasonStatus s))])"
proof -
  have res: "updatedTasks res = recalculateAllTaskDates ts (createdAt s)"
    using progressSeason_fst [of userId sid i ts w] run s by (auto split: if_splits)
  have d: "list_all (\<lambda>t. status t = Completed) (recalculateAllTaskDates ts (createdAt s))"
    using allDone res by simp
  have st: "seasonStatus (updateSeasonAttention s x) = seasonStatus s" for x
    by (simp add: updateSeasonAttention_def)
  show ?thesis
    using run s notClosed d
    by (auto simp: progressSeason_def Let_def st update_conv' logActivity_def
                   notifyNewlyActionable_fields seasonActivity_def saveSeason_def
                   activityActions_def
             split: if_splits)
qed

lemma update_changed_progress:
  assumes "updateTaskAndProgressSeason w userId snap taskId upd = (Inr res, w')"
    and "hasChanged res"
  shows "\<exists>i ts2 w2. sameButLogs w w2
           \<and> progressSeason userId (seasonId snap) i ts2 w2 = (Inr res, w')"
proof (cases "map_of (users w) userId")
  case None
  with assms show ?thesis by (simp add: updateTaskAndProgressSeason_def)
next
  case (Some u)
  show ?thesis
  proof (cases "findIndex (\<lambda>t. tid t = Some taskId) (tasks snap)")
    case None
    with Some assms show ?thesis by (simp add: updateTaskAndProgressSeason_def)
  next
    case (Some i)
    obtain ts1 ch1 w1 where r: "applyRemarks userId (seasonId snap) (ud_remarks upd) i (tasks snap) w = (ts1, ch1, w1)"
      by (cases "applyRemarks userId (seasonId snap) (ud_remarks upd) i (tasks snap) w") auto
    have l1: "sameButLogs w w1" by (rule applyRemarks_world [OF r])
    show ?thesis
    proof (cases "applyCompletion userId (seasonId snap) (isAdminOrPlanner u) (ud_actualCompletion upd) i ts1 w1")
      case (Inl e')
      with assms \<open>map_of (users w) userId = Some u\<close> Some r show ?thesis
        by (simp add: updateTaskAndProgressSeason_def)
    next
      case (Inr x)
      obtain ts2 ch2 w2 where x: "x = (ts2, ch2, w2)" by (cases x) auto
      have l2: "sameButLogs w1 w2" using applyCompletion_world Inr x by blast
      from assms \<open>map_of (users w) userId = Some u\<close> Some r Inr x
      have "progressSeason userId (seasonId snap) i ts2 w2 = (Inr res, w')"
        by (auto simp: updateTaskAndProgressSeason_def split: if_splits)
      with l1 l2 show ?thesis by (blast intro: sameButLogs_trans)
    qed
  qed
qed

lemma update_closes_when_all_completed:
  assumes "updateTaskAndProgressSeason w userId snap taskId upd = (Inr res, w')"
    and "hasChanged res"
    and "list_all (\<lambda>t. status t = Completed) (updatedTasks res)"
    and "map_of (seasons w) (seasonId snap) = Some s"
    and "seasonStatus s \<noteq> Closed"
  shows "\<exists>s'. map_of (seasons w') (seasonId snap) = Some s' \<and> seasonStatus s' = Closed
              \<and> requireAttention s' = Some []
              \<and> (userId \<noteq> [] \<longrightarrow>
                   (\<exists>earlier. activityLogs w' = earlier @
                      [seasonActivity userId (seasonId snap) ''UPDATE_STATUS''
                         (StatusAutoClosed (seasonStatus s))]))"
proof -
  from update_changed_progress [OF assms(1,2)] obtain i ts2 w2
    where l: "sameButLogs w w2"
      and p: "progressSeason userId (seasonId snap) i ts2 w2 = (Inr res, w')"
    by blast
  have "map_of (seasons w2) (seasonId snap) = Some s"
    using sameButLogs_fields [OF l] assms(4) by simp
  from progressSeason_closes [OF this assms(5) p assms(3)] show ?thesis by blast
qed

lemma completing_last_pending_closes:
  assumes u: "map_of (users w) userId = Some u"
    and i: "findIndex (\<lambda>t. tid t = Some taskId) (tasks snap) = Some i"
    and ac: "ud_actualCompletion upd = Some (Some d)"
    and pend: "status (tasks snap ! i) = Pending" "actualCompletion (tasks snap ! i) = None"
    and others: "\<forall>j < length (tasks snap). j \<noteq> i \<longrightarrow> status (tasks snap ! j) = Completed"
    and preds: "statusPredecessorsComplete (tasksMap (tasks snap)) (tasks snap ! i)"
    and s: "map_of (seasons w) (seasonId snap) = Some s" and notClosed: "seasonStatus s \<noteq> Closed"
  shows "\<exists>res w' s'. updateTaskAndProgressSeason w userId snap taskId upd = (Inr res, w')
           \<and> list_all (\<lambda>t. status t = Completed) (updatedTasks res)
           \<and> map_of (seasons w') (seasonId snap) = Some s'
           \<and> seasonStatus s' = Closed \<and> requireAttention s' = Some []
           \<and> (userId \<noteq> [] \<longrightarrow>
                 (\<exists>earlier. activityLogs w' = earlier @
                    [seasonActivity userId (seasonId snap) ''UPDATE_STATUS''
                       (StatusAutoClosed (seasonStatus s))]))"
proof -
  have day: "map_option dayOf (actualCompletion (tasks snap ! i)) \<noteq> Some (dayOf d)"
    using pend(2) by simp
  have cp: "checkPredecessors (tasksMap (tasks snap)) (precedingTasks (tasks snap ! i)) = None"
    using preds by (simp add: statusPredecessorsComplete_def checkPredecessors_None)
  from update_completion_unfold [OF u i ac day] obtain ts1
    where rel: "list_all2 sameButRemarks (tasks snap) ts1"
      and eq0: "fst (updateTaskAndProgressSeason w userId snap taskId upd) =
                 (if seasonValid
                       (updateSeasonAttention s
                          (recalculateAllTaskDates
                             (ts1[i := completeTask d (ts1 ! i)]) (createdAt s)))
                  then Inr \<lparr>hasChanged = True,
                            updatedTasks = recalculateAllTaskDates
                                             (ts1[i := completeTask d (ts1 ! i)]) (createdAt s),
                            message = None\<rparr>
                  else Inl StoreValidationError)"
    using pend(1) cp s by auto
  let ?ts2 = "ts1[i := completeTask d (ts1 ! i)]"
  let ?res = "\<lparr>hasChanged = True,
               updatedTasks = recalculateAllTaskDates ?ts2 (createdAt s), message = None\<rparr>"
  have len: "length ts1 = length (tasks snap)" using list_all2_lengthD [OF rel] by simp
  have st: "status (?ts2 ! j) = Completed" if "j < length ?ts2" for j
  proof (cases "j = i")
    case True
    then show ?thesis using that by (simp add: completeTask_def)
  next
    case False
    have "status (ts1 ! j) = status (tasks snap ! j)"
      using sameButRemarks_fields [OF list_all2_nthD [OF rel]] that len by simp
    then show ?thesis using False that others len by simp
  qed
  have "status (recalculateAllTaskDates ?ts2 (createdAt s) ! j) = Completed"
    if "j < length ?ts2" for j
    using that st by (simp add: recalc_fields)
  then have all: "list_all (\<lambda>t. status t = Completed) (updatedTasks ?res)"
    by (simp add: list_all_length)
  have "currentRequireAttention (recalculateAllTaskDates ?ts2 (createdAt s)) = []"
    using all by (simp add: currentRequireAttention_none)
  then have "seasonValid (updateSeasonAttention s (recalculateAllTaskDates ?ts2 (createdAt s)))"
    by (simp add: updateSeasonAttention_def seasonValid_def)
  with eq0 have eq: "fst (updateTaskAndProgressSeason w userId snap taskId upd) = Inr ?res"
    by simp
  obtain w' where run: "updateTaskAndProgressSeason w userId snap taskId upd = (Inr ?res, w')"
    using eq by (cases "updateTaskAndProgressSeason w userId snap taskId upd") auto
  from update_changed_progress [OF run] obtain i' ts2' w2
    where l: "sameButLogs w w2"
      and p: "progressSeason userId (seasonId snap) i' ts2' w2 = (Inr ?res, w')"
    by auto
  have "map_of (seasons w2) (seasonId snap) = Some s"
    using sameButLogs_fields [OF l] s by simp
  from progressSeason_closes [OF this notClosed p all] run all show ?thesis by blast
qed

text \<open>
  Claim C3. For a stored season that is not yet \<open>Closed\<close>: whenever the transaction
  applied a change and every entry of the resulting task list is completed, the stored
  season ends up \<open>Closed\<close> with an empty \<open>requireAttention\<close>, and the last activity entry
  written is the \<^verbatim>\<open>UPDATE_STATUS\<close> record of the automatic transition from the old status.
  In particular, when the entry being updated is the only one not completed, it has no
  completion date yet, its preceding entries are completed and a valid completion date is
  given, the transaction succeeds and closes the season in this way.
\<close>

theorem auto_close_when_all_completed:
  assumes "map_of (seasons w) (seasonId snap) = Some s" and "seasonStatus s \<noteq> Closed"
  shows "(\<forall>res w'.
            updateTaskAndProgressSeason w userId snap taskId upd = (Inr res, w')
            \<and> hasChanged res \<and> list_all (\<lambda>t. status t = Completed) (updatedTasks res) \<longrightarrow>
            (\<exists>s'. map_of (seasons w') (seasonId snap) = Some s' \<and> seasonStatus s' = Closed
                  \<and> requireAttention s' = Some []
                  \<and> (userId \<noteq> [] \<longrightarrow>
                        (\<exists>earlier. activityLogs w' = earlier @
                           [seasonActivity userId (seasonId snap) ''UPDATE_STATUS''
                              (StatusAutoClosed (seasonStatus s))]))))
       \<and> (\<forall>u i d.
            map_of (users w) userId = Some u
            \<and> findIndex (\<lambda>t. tid t = Some taskId) (tasks snap) = Some i
            \<and> ud_actualCompletion upd = Some (Some d)
            \<and> status (tasks snap ! i) = Pending \<and> actualCompletion (tasks snap ! i) = None
            \<and> (\<forall>j < length (tasks snap). j \<noteq> i \<longrightarrow> status (tasks snap ! j) = Completed)
            \<and> statusPredecessorsComplete (tasksMap (tasks snap)) (tasks snap ! i) \<longrightarrow>
            (\<exists>res w' s'.
                updateTaskAndProgressSeason w userId snap taskId upd = (Inr res, w')
                \<and> list_all (\<lambda>t. status t = Completed) (updatedTasks res)
                \<and> map_of (seasons w') (seasonId snap) = Some s' \<and> seasonStatus s' = Closed
                \<and> requireAttention s' = Some []
                \<and> (userId \<noteq> [] \<longrightarrow>
                      (\<exists>earlier. activityLogs w' = earlier @
                         [seasonActivity userId (seasonId snap) ''UPDATE_STATUS''
                            (StatusAutoClosed (seasonStatus s))]))))"
proof (intro conjI allI impI)
  fix res w'
  assume "updateTaskAndProgressSeason w userId snap taskId upd = (Inr res, w')
          \<and> hasChanged res \<and> list_all (\<lambda>t. status t = Completed) (updatedTasks res)"
  then show "\<exists>s'. map_of (seasons w') (seasonId snap) = Some s' \<and> seasonStatus s' = Closed
                  \<and> requireAttention s' = Some []
                  \<and> (userId \<noteq> [] \<longrightarrow>
                        (\<exists>earlier. activityLogs w' = earlier @
                           [seasonActivity userId (seasonId snap) ''UPDATE_STATUS''
                              (StatusAutoClosed (seasonStatus s))]))"
    using update_closes_when_all_completed [of w userId snap taskId upd res w' s] assms
    by blast
next
  fix u i d
  assume "map_of (users w) userId = Some u
            \<and> findIndex (\<lambda>t. tid t = Some taskId) (tasks snap) = Some i
            \<and> ud_actualCompletion upd = Some (Some d)
            \<and> status (tasks snap ! i) = Pending \<and> actualCompletion (tasks snap ! i) = None
            \<and> (\<forall>j < length (tasks snap). j \<noteq> i \<longrightarrow> status (tasks snap ! j) = Completed)
            \<and> statusPredecessorsComplete (tasksMap (tasks snap)) (tasks snap ! i)"
  then show "\<exists>res w' s'.
                updateTaskAndProgressSeason w userId snap taskId upd = (Inr res, w')
                \<and> list_all (\<lambda>t. status t = Completed) (updatedTasks res)
                \<and> map_of (seasons w') (seasonId snap) = Some s' \<and> seasonStatus s' = Closed
                \<and> requireAttention s' = Some []
                \<and> (userId \<noteq> [] \<longrightarrow>
                      (\<exists>earlier. activityLogs w' = earlier @
                         [seasonActivity userId (seasonId snap) ''UPDATE_STATUS''
                            (StatusAutoClosed (seasonStatus s))]))"
    using completing_last_pending_closes [of w userId u taskId snap i upd d s] assms
    by blast
qed

theorem auto_close_witness:
  "updateTaskAndProgressSeason world1 ''u1'' snap1 ''tb'' completeB
     = (Inr \<lparr>hasChanged = True, updatedTasks = [taskADone, taskBDone], message = None\<rparr>,
        closedWorld)
   \<and> map_of (seasons world1) ''s1'' = Some season0 \<and> seasonStatus season0 \<noteq> Closed
   \<and> (\<exists>s'. map_of (seasons closedWorld) ''s1'' = Some s' \<and> seasonStatus s' = Closed
             \<and> requireAttention s' = Some [])"
proof -
  have h2: "hasChanged \<lparr>hasChanged = True, updatedTasks = [taskADone, taskBDone], message = None\<rparr>"
    by simp
  have h3: "list_all (\<lambda>t. status t = Completed)
              (updatedTasks \<lparr>hasChanged = True, updatedTasks = [taskADone, taskBDone],
                             message = None\<rparr>)"
    by (simp add: taskADone_def taskBDone_def)
  have h4: "map_of (seasons world1) (seasonId snap1) = Some season0"
    by (simp add: world1_def world0_def snap1_def)
  have h5: "seasonStatus season0 \<noteq> Closed" by (simp add: season0_def)
  have sid: "seasonId snap1 = ''s1''" by (simp add: snap1_def)
  from auto_close_when_all_completed [OF h4 h5, of "''u1''" "''tb''" completeB]
  have "\<exists>s'. map_of (seasons closedWorld) (seasonId snap1) = Some s' \<and> seasonStatus s' = Closed
             \<and> requireAttention s' = Some []"
    using example_closed h2 h3 by blast
  then show ?thesis using example_closed h4 h5 unfolding sid by blast
qed

lemma list_all_update:
  "list_all P ts \<Longrightarrow> P t' \<Longrightarrow> list_all P (ts[i := t'])"
  using set_update_subset_insert [of ts i t'] by (auto simp: list_all_iff)

lemma entryWf_remarks: "entryWf t \<Longrightarrow> entryWf (t\<lparr>remarks := r\<rparr>)"
  by (simp add: entryWf_def datesConsistent_def split: option.splits)

lemma entryWf_completeTask: "entryWf t \<Longrightarrow> entryWf (t\<lparr>actualCompletion := Some d, status := Completed\<rparr>)"
  by (simp add: entryWf_def datesConsistent_def split: option.splits)

lemma applyRemarks_wf:
  assumes "applyRemarks userId sid r i ts w = (ts1, ch, w1)" and "i < length ts"
    and "list_all entryWf ts"
  shows "list_all entryWf ts1"
proof -
  have "entryWf (ts ! i)" using assms(2,3) by (simp add: list_all_iff)
  then have "list_all entryWf (ts[i := (ts ! i)\<lparr>remarks := x\<rparr>])" for x
    by (intro list_all_update assms(3) entryWf_remarks)
  then show ?thesis using assms(1,3)
    by (auto simp: applyRemarks_def Let_def split: option.splits if_splits)
qed

lemma applyCompletion_wf:
  assumes "applyCompletion userId sid el ac i ts w = Inr (ts2, ch, w2)" and "i < length ts"
    and "list_all entryWf ts"
  shows "list_all entryWf ts2"
proof -
  have "entryWf (ts ! i)" using assms(2,3) by (simp add: list_all_iff)
  then have "list_all entryWf (ts[i := (ts ! i)\<lparr>actualCompletion := Some d, status := Completed\<rparr>])" for d
    by (intro list_all_update assms(3) entryWf_completeTask)
  then show ?thesis using assms(1,3)
    by (auto simp: applyCompletion_def Let_def split: option.splits if_splits)
qed

lemma entryWf_update:
  assumes run: "updateTaskAndProgressSeason w userId snap taskId upd = (Inr res, w')"
    and wf: "list_all entryWf (tasks snap)"
  shows "list_all entryWf (updatedTasks res)"
proof (cases "map_of (users w) userId")
  case None
  with run show ?thesis by (simp add: updateTaskAndProgressSeason_def)
next
  case (Some u)
  show ?thesis
  proof (cases "findIndex (\<lambda>t. tid t = Some taskId) (tasks snap)")
    case None
    with Some run show ?thesis by (simp add: updateTaskAndProgressSeason_def)
  next
    case (Some i)
    have il: "i < length (tasks snap)" using findIndex_Some [OF Some] by simp
    obtain ts1 ch1 w1 where r: "applyRemarks userId (seasonId snap) (ud_remarks upd) i (tasks snap) w = (ts1, ch1, w1)"
      by (cases "applyRemarks userId (seasonId snap) (ud_remarks upd) i (tasks snap) w") auto
    have wf1: "list_all entryWf ts1" by (rule applyRemarks_wf [OF r il wf])
    have il1: "i < length ts1"
      using list_all2_lengthD [OF applyRemarks_tasks [OF r il]] il by simp
    show ?thesis
    proof (cases "applyCompletion userId (seasonId snap) (isAdminOrPlanner u) (ud_actualCompletion upd) i ts1 w1")
      case (Inl e')
      with run \<open>map_of (users w) userId = Some u\<close> Some r show ?thesis
        by (simp add: updateTaskAndProgressSeason_def)
    next
      case (Inr x)
      obtain ts2 ch2 w2 where x: "x = (ts2, ch2, w2)" by (cases x) auto
      have wf2: "list_all entryWf ts2"
        using applyCompletion_wf [OF _ il1 wf1] Inr x by blast
      show ?thesis
      proof (cases "ch1 \<or> ch2")
        case False
        with run \<open>map_of (users w) userId = Some u\<close> Some r Inr x wf2 show ?thesis
          by (auto simp: updateTaskAndProgressSeason_def)
      next
        case True
        with run \<open>map_of (users w) userId = Some u\<close> Some r Inr x
        have p: "progressSeason userId (seasonId snap) i ts2 w2 = (Inr res, w')"
          by (auto simp: updateTaskAndProgressSeason_def)
        have "\<exists>c. updatedTasks res = recalculateAllTaskDates ts2 c"
          using progressSeason_fst [of userId "seasonId snap" i ts2 w2] p
          by (auto split: option.splits if_splits)
        then show ?thesis using entryWf_recalculate [OF wf2] by auto
      qed
    qed
  qed
qed

section \<open>Properties of season status changes\<close>

lemma updateSeasonStatus_clears:
  assumes "updateSeasonStatus w sid newStatus userId = (Success s', w')"
    and "map_of (seasons w) sid = Some s" and "seasonStatus s' \<noteq> seasonStatus s"
  shows "map_of (seasons w') sid = Some s'
         \<and> (seasonStatus s' \<noteq> Open \<longrightarrow> requireAttention s' = Some [])
         \<and> (seasonStatus s' = Open \<longrightarrow>
              (\<forall>ts. map_of (snapshots w) sid = Some ts \<longrightarrow>
                    requireAttention s' = Some (currentRequireAttention ts)))"
  using assms
  by (auto simp: updateSeasonStatus_def Let_def update_conv' logActivity_def
                 updateSeasonAttention_def saveSeason_def
           split: option.splits if_splits)

text \<open>
  Claim C8, evaluated. \<^verbatim>\<open>PUT /api/seasons/:id\<close> with only a status in its body moves an
  open season to \<open>OnHold\<close> and stores it with its \<open>requireAttention\<close> untouched, where
  \<^verbatim>\<open>updateSeasonStatus\<close> on the same season stores the empty list; with a
  \<open>requireAttention\<close> value in its body it stores that value on a season that is on hold.
\<close>

theorem put_season_keeps_attention_off_open:
  "map_of (seasons world0) ''s1'' = Some season0 \<and> seasonStatus season0 = Open
   \<and> fst (putSeason world0 ''s1'' ''u2'' holdBody)
       = Success (season0\<lparr>seasonStatus := OnHold\<rparr>)
   \<and> map_of (seasons (snd (putSeason world0 ''s1'' ''u2'' holdBody))) ''s1''
       = Some (season0\<lparr>seasonStatus := OnHold\<rparr>)
   \<and> requireAttention (season0\<lparr>seasonStatus := OnHold\<rparr>) = Some [''AM'']
   \<and> fst (updateSeasonStatus world0 ''s1'' ''On-Hold'' ''u2'')
       = Success (season0\<lparr>seasonStatus := OnHold, requireAttention := Some []\<rparr>)
   \<and> map_of (seasons (snd (putSeason heldWorld ''s1'' ''u2'' attentionBody))) ''s1''
       = Some (heldSeason\<lparr>requireAttention := Some [''PD'']\<rparr>)
   \<and> seasonStatus (heldSeason\<lparr>requireAttention := Some [''PD'']\<rparr>) = OnHold"
  by (simp add: putSeason_def updateSeasonStatus_def world0_def season0_def holdBody_def
        attentionBody_def heldWorld_def heldSeason_def parseStatus_def Let_def
        saveSeason_def seasonValid_def requireAttentionEnum_def)

end
